theory Spec2Isabelle
  imports Main "HOL-Library.Char_ord" "HOL-Library.List_Lexorder" "HOL-Library.AList"
begin

section \<open>Text as the Python code sees it\<close>

text \<open>
  A Python \<open>str\<close> is modelled as a \<^typ>\<open>string\<close>, one \<^typ>\<open>char\<close> per code point, so the
  model covers text whose code points are below 256. The character tables below are those
  of Python 3 on that range: \<open>str.isspace\<close>, the decimal digits of \<open>\d\<close>, the word
  characters of \<open>\w\<close> and \<open>\b\<close>, \<open>str.isalpha\<close>, the cased characters of \<open>str.isupper\<close>,
  \<open>str.lower\<close> and the line boundaries of \<open>str.splitlines\<close>.
\<close>

definition code :: "char \<Rightarrow> nat" where
  "code c = of_char c"

definition is_space :: "char \<Rightarrow> bool" where
  "is_space c = (let n = code c in (9 \<le> n \<and> n \<le> 13) \<or> (28 \<le> n \<and> n \<le> 32) \<or> n = 133 \<or> n = 160)"

definition is_digit :: "char \<Rightarrow> bool" where
  "is_digit c = (let n = code c in 48 \<le> n \<and> n \<le> 57)"

definition is_ascii_upper :: "char \<Rightarrow> bool" where
  "is_ascii_upper c = (let n = code c in 65 \<le> n \<and> n \<le> 90)"

definition is_ascii_lower :: "char \<Rightarrow> bool" where
  "is_ascii_lower c = (let n = code c in 97 \<le> n \<and> n \<le> 122)"

definition is_ascii_letter :: "char \<Rightarrow> bool" where
  "is_ascii_letter c = (is_ascii_upper c \<or> is_ascii_lower c)"

definition is_upper_char :: "char \<Rightarrow> bool" where
  "is_upper_char c = (let n = code c in
     is_ascii_upper c \<or> (192 \<le> n \<and> n \<le> 214) \<or> (216 \<le> n \<and> n \<le> 222))"

definition is_lower_char :: "char \<Rightarrow> bool" where
  "is_lower_char c = (let n = code c in
     is_ascii_lower c \<or> n = 170 \<or> n = 181 \<or> n = 186 \<or> (223 \<le> n \<and> n \<le> 246) \<or> (248 \<le> n \<and> n \<le> 255))"

definition is_alpha :: "char \<Rightarrow> bool" where
  "is_alpha c = (is_upper_char c \<or> is_lower_char c)"

definition is_word :: "char \<Rightarrow> bool" where
  "is_word c = (let n = code c in
     is_alpha c \<or> is_digit c \<or> n = 95 \<or> n = 178 \<or> n = 179 \<or> n = 185 \<or> (188 \<le> n \<and> n \<le> 190))"

definition is_linebreak :: "char \<Rightarrow> bool" where
  "is_linebreak c = (let n = code c in (10 \<le> n \<and> n \<le> 13) \<or> (28 \<le> n \<and> n \<le> 30) \<or> n = 133)"

definition lower_char :: "char \<Rightarrow> char" where
  "lower_char c = (if is_upper_char c then char_of (code c + 32) else c)"

definition str_lower :: "string \<Rightarrow> string" where
  "str_lower s = map lower_char s"

text \<open>\<open>s.strip()\<close> and \<open>s.strip(chars)\<close>.\<close>

definition strip_chars :: "(char \<Rightarrow> bool) \<Rightarrow> string \<Rightarrow> string" where
  "strip_chars p s = rev (dropWhile p (rev (dropWhile p s)))"

definition str_strip :: "string \<Rightarrow> string" where
  "str_strip s = strip_chars is_space s"

text \<open>\<open>s.split()\<close>: the maximal runs of characters that are not whitespace.\<close>

fun split_aux :: "string \<Rightarrow> string \<Rightarrow> string list" where
  "split_aux cur [] = (if cur = [] then [] else [rev cur])"
| "split_aux cur (c # cs) =
     (if is_space c then (if cur = [] then split_aux [] cs else rev cur # split_aux [] cs)
      else split_aux (c # cur) cs)"

definition str_split :: "string \<Rightarrow> string list" where
  "str_split s = split_aux [] s"

text \<open>
  \<open>s.splitlines()\<close>: a line ends at a line boundary, \<open>\r\n\<close> counts as one boundary, and
  a boundary at the very end opens no further line.
\<close>

fun splitlines_aux :: "string \<Rightarrow> string \<Rightarrow> string list" where
  "splitlines_aux cur [] = (if cur = [] then [] else [rev cur])"
| "splitlines_aux cur [c] = (if is_linebreak c then [rev cur] else [rev (c # cur)])"
| "splitlines_aux cur (c # d # cs) =
     (if c = CHR 0x0D \<and> d = CHR 0x0A then rev cur # splitlines_aux [] cs
      else if is_linebreak c then rev cur # splitlines_aux [] (d # cs)
      else splitlines_aux (c # cur) (d # cs))"

definition str_splitlines :: "string \<Rightarrow> string list" where
  "str_splitlines s = splitlines_aux [] s"

text \<open>\<open>sep.join(xs)\<close>.\<close>

fun str_join :: "string \<Rightarrow> string list \<Rightarrow> string" where
  "str_join sep [] = []"
| "str_join sep [x] = x"
| "str_join sep (x # y # ys) = x @ sep @ str_join sep (y # ys)"

text \<open>\<open>k in s\<close> for strings: \<open>k\<close> occurs in \<open>s\<close> as a substring.\<close>

fun str_contains :: "string \<Rightarrow> string \<Rightarrow> bool" where
  "str_contains k [] = (k = [])"
| "str_contains k (c # cs) = (take (length k) (c # cs) = k \<or> str_contains k cs)"

text \<open>
  \<open>s.isupper()\<close>: no lowercase character, and at least one uppercase character.
\<close>

definition str_isupper :: "string \<Rightarrow> bool" where
  "str_isupper s = (\<not> list_ex is_lower_char s \<and> list_ex is_upper_char s)"

text \<open>The slice \<open>xs[i:j]\<close> for indices that are not negative.\<close>

definition slice :: "'a list \<Rightarrow> nat \<Rightarrow> nat \<Rightarrow> 'a list" where
  "slice xs i j = take (j - i) (drop i xs)"

section \<open>Regular expressions of Python's re module\<close>

text \<open>
  The patterns of the program use literals, character classes, greedy repetition of one
  class, sequence, alternation, optional and capturing groups, \<open>\b\<close>, \<open>^\<close> and \<open>$\<close>.
  \<open>Rep p lo hi\<close> is \<open>p{lo,hi}\<close>, with \<open>None\<close> for no upper bound.
\<close>

datatype rx =
    Lit string
  | Cls "char \<Rightarrow> bool"
  | Rep "char \<Rightarrow> bool" nat "nat option"
  | Seq rx rx
  | Alt rx rx
  | Opt rx
  | Grp nat rx
  | WordB
  | Bol
  | Eol

text \<open>
  A matcher state is the character before the current position (\<open>None\<close> at the start of
  the string), the text from the current position on, and the groups captured so far, the
  latest first.
\<close>

type_synonym mstate = "char option \<times> string \<times> (nat \<times> string) list"

text \<open>
  A literal under \<open>re.IGNORECASE\<close> (\<open>ic\<close>) compares the lowercased characters.
\<close>

fun lit :: "bool \<Rightarrow> string \<Rightarrow> mstate \<Rightarrow> mstate list" where
  "lit ic [] st = [st]"
| "lit ic (k # ks) (p, [], g) = []"
| "lit ic (k # ks) (p, c # cs, g) =
     (if (if ic then lower_char c = lower_char k else c = k) then lit ic ks (Some c, cs, g) else [])"

text \<open>
  Greedy repetition: the longest run is tried first, then each shorter one down to \<open>lo\<close>.
\<close>

fun rep :: "(char \<Rightarrow> bool) \<Rightarrow> nat \<Rightarrow> nat option \<Rightarrow> mstate \<Rightarrow> mstate list" where
  "rep q lo hi (p, [], g) = (if lo = 0 then [(p, [], g)] else [])"
| "rep q lo hi (p, c # cs, g) =
     (if q c \<and> hi \<noteq> Some 0 then rep q (lo - 1) (map_option (\<lambda>h. h - 1) hi) (Some c, cs, g) else [])
     @ (if lo = 0 then [(p, c # cs, g)] else [])"

definition at_word_boundary :: "char option \<Rightarrow> string \<Rightarrow> bool" where
  "at_word_boundary p s =
     ((case p of None \<Rightarrow> False | Some c \<Rightarrow> is_word c) \<noteq> (case s of [] \<Rightarrow> False | c # _ \<Rightarrow> is_word c))"

text \<open>
  \<open>rmatch ic r st\<close> lists the states in which a match of \<open>r\<close> from \<open>st\<close> can end, in the
  order in which the backtracking matcher of \<open>re\<close> reaches them; the first one is the match
  that \<open>re\<close> reports.
\<close>

fun rmatch :: "bool \<Rightarrow> rx \<Rightarrow> mstate \<Rightarrow> mstate list" where
  "rmatch ic (Lit k) st = lit ic k st"
| "rmatch ic (Cls q) (p, s, g) = (case s of [] \<Rightarrow> [] | c # cs \<Rightarrow> if q c then [(Some c, cs, g)] else [])"
| "rmatch ic (Rep q lo hi) st = rep q lo hi st"
| "rmatch ic (Seq a b) st = concat (map (rmatch ic b) (rmatch ic a st))"
| "rmatch ic (Alt a b) st = rmatch ic a st @ rmatch ic b st"
| "rmatch ic (Opt a) st = rmatch ic a st @ [st]"
| "rmatch ic (Grp n a) (p, s, g) =
     map (\<lambda>(p', s', g'). (p', s', (n, take (length s - length s') s) # g')) (rmatch ic a (p, s, g))"
| "rmatch ic WordB (p, s, g) = (if at_word_boundary p s then [(p, s, g)] else [])"
| "rmatch ic Bol (p, s, g) = (if p = None then [(p, s, g)] else [])"
| "rmatch ic Eol (p, s, g) = (if s = [] \<or> s = [CHR 0x0A] then [(p, s, g)] else [])"

text \<open>A match object: the matched text (\<open>group(0)\<close>) and the captured groups.\<close>

type_synonym rmatch_obj = "string \<times> (nat \<times> string) list"

definition group0 :: "rmatch_obj \<Rightarrow> string" where
  "group0 m = fst m"

text \<open>
  \<open>m.group(n)\<close>; a group that took no part in the match reads as the empty string, as in
  the tuples of \<open>re.findall\<close>.
\<close>

definition group :: "rmatch_obj \<Rightarrow> nat \<Rightarrow> string" where
  "group m n = (case map_of (snd m) n of None \<Rightarrow> [] | Some t \<Rightarrow> t)"

definition match_here :: "bool \<Rightarrow> rx \<Rightarrow> char option \<Rightarrow> string \<Rightarrow> rmatch_obj option" where
  "match_here ic r p s =
     (case rmatch ic r (p, s, []) of [] \<Rightarrow> None
      | (p', s', g) # _ \<Rightarrow> Some (take (length s - length s') s, g))"

text \<open>\<open>re.search\<close>: the match at the leftmost position that has one.\<close>

fun search_from :: "bool \<Rightarrow> rx \<Rightarrow> char option \<Rightarrow> string \<Rightarrow> rmatch_obj option" where
  "search_from ic r p [] = match_here ic r p []"
| "search_from ic r p (c # cs) =
     (case match_here ic r p (c # cs) of Some m \<Rightarrow> Some m | None \<Rightarrow> search_from ic r (Some c) cs)"

definition re_search :: "rx \<Rightarrow> string \<Rightarrow> rmatch_obj option" where
  "re_search r s = search_from False r None s"

text \<open>\<open>re.match\<close>: a match at the start of the string only.\<close>

definition re_match :: "rx \<Rightarrow> string \<Rightarrow> rmatch_obj option" where
  "re_match r s = match_here False r None s"

text \<open>\<open>re.fullmatch\<close> as a truth value: some way of matching ends at the end of the string.\<close>

definition re_fullmatch :: "bool \<Rightarrow> rx \<Rightarrow> string \<Rightarrow> bool" where
  "re_fullmatch ic r s = list_ex (\<lambda>(p', s', g'). s' = []) (rmatch ic r (None, s, []))"

text \<open>
  \<open>re.findall\<close>: the matches from left to right, each search starting where the previous
  match ended; \<open>skip\<close> counts the characters of the previous match still to pass. No
  pattern of the program matches the empty string.
\<close>

fun findall_from :: "rx \<Rightarrow> nat \<Rightarrow> char option \<Rightarrow> string \<Rightarrow> rmatch_obj list" where
  "findall_from r skip p [] =
     (if skip = 0 then (case match_here False r p [] of None \<Rightarrow> [] | Some m \<Rightarrow> [m]) else [])"
| "findall_from r skip p (c # cs) =
     (if skip \<noteq> 0 then findall_from r (skip - 1) (Some c) cs
      else (case match_here False r p (c # cs) of
              None \<Rightarrow> findall_from r 0 (Some c) cs
            | Some m \<Rightarrow> m # findall_from r (length (group0 m) - 1) (Some c) cs))"

definition re_findall :: "rx \<Rightarrow> string \<Rightarrow> rmatch_obj list" where
  "re_findall r s = findall_from r 0 None s"

text \<open>A pattern written as a sequence of parts.\<close>

fun seqs :: "rx list \<Rightarrow> rx" where
  "seqs [] = Lit []"
| "seqs [r] = r"
| "seqs (r # rs) = Seq r (seqs rs)"

section \<open>The schema (resume_parser/schema.py)\<close>

text \<open>
  A Python dict with string keys is an association list in insertion order: \<open>d[k]\<close> reads
  it and raises \<open>KeyError\<close> on a missing key, \<open>d[k] = v\<close> replaces the value of a key in
  place or appends a new key. A value of the schema is a string, a list of strings or the
  dict of test scores; indexing a string or a list with a string key raises \<open>TypeError\<close>.
\<close>

type_synonym 'v dict = "(string \<times> 'v) list"

datatype val = Str string | Lst "string list" | Dct "string dict"

datatype error = KeyError string | TypeError

type_synonym schema = "val dict"

definition getitem :: "'v dict \<Rightarrow> string \<Rightarrow> error + 'v" where
  "getitem d k = (case map_of d k of None \<Rightarrow> Inl (KeyError k) | Some v \<Rightarrow> Inr v)"

definition setitem :: "'v dict \<Rightarrow> string \<Rightarrow> 'v \<Rightarrow> 'v dict" where
  "setitem d k v = AList.update k v d"

definition BASE_RESUME_SCHEMA :: schema where
  "BASE_RESUME_SCHEMA =
     [(''name'', Str []),
      (''email'', Str []),
      (''phoneNumber'', Str []),
      (''highSchoolName'', Str []),
      (''highSchoolAddress'', Str []),
      (''highSchoolGpaOrPercentage'', Str []),
      (''highSchoolGpaScale'', Str []),
      (''highSchoolBoard'', Str []),
      (''highSchoolGraduationYear'', Str []),
      (''ugCollegeName'', Str []),
      (''ugCollegeAddress'', Str []),
      (''ugCollegeGpaOrPercentage'', Str []),
      (''ugCollegeGpaScale'', Str []),
      (''ugUniversity'', Str []),
      (''ugGraduationYear'', Str []),
      (''ugDegree'', Str []),
      (''ugMajor'', Str []),
      (''pgCollegeName'', Str []),
      (''pgCollegeAddress'', Str []),
      (''pgCollegeGpaOrPercentage'', Str []),
      (''pgCollegeGpaScale'', Str []),
      (''pgUniversity'', Str []),
      (''pgGraduationYear'', Str []),
      (''pgDegree'', Str []),
      (''pgMajor'', Str []),
      (''certifications'', Lst []),
      (''extraCurricularActivities'', Lst []),
      (''workExperience'', Lst []),
      (''researchPublications'', Lst []),
      (''testScores'',
         Dct [(''sat'', []), (''act'', []), (''gre'', []), (''gmat'', []), (''toefl'', []),
              (''ielts'', [])]),
      (''achievements'', Lst []),
      (''skills'', Lst [])]"

text \<open>\<open>deepcopy\<close> of the base schema: the same value, shared with nothing.\<close>

definition empty_resume_schema :: schema where
  "empty_resume_schema = BASE_RESUME_SCHEMA"

fun truthy :: "val \<Rightarrow> bool" where
  "truthy (Str s) = (s \<noteq> [])"
| "truthy (Lst xs) = (xs \<noteq> [])"
| "truthy (Dct d) = (d \<noteq> [])"

text \<open>Python's \<open>a or b\<close> on values.\<close>

definition py_or :: "val \<Rightarrow> val \<Rightarrow> val" where
  "py_or a b = (if truthy a then a else b)"

section \<open>Field extractors (resume_parser/nlp.py)\<close>

definition SKILLS_DB :: "string list" where
  "SKILLS_DB =
     [''python'', ''java'', ''c'', ''c++'', ''c#'', ''javascript'', ''typescript'',
      ''html'', ''css'', ''react'', ''node.js'', ''express'', ''django'', ''flask'',
      ''sql'', ''mysql'', ''postgresql'', ''mongodb'', ''nosql'', ''oracle'',
      ''git'', ''github'', ''docker'',
      ''flutter'', ''dart'',
      ''machine learning'', ''deep learning'', ''nlp'',
      ''data analysis'', ''excel'',
      ''uipath'', ''rpa'']"

text \<open>\<open>[a-zA-Z0-9._%+-]+@[a-zA-Z0-9.-]+\.[a-zA-Z]{2,}\<close>\<close>

definition EMAIL_REGEX :: rx where
  "EMAIL_REGEX = seqs
     [Rep (\<lambda>c. is_ascii_letter c \<or> is_digit c \<or> c \<in> set ''._%+-'') 1 None,
      Lit ''@'',
      Rep (\<lambda>c. is_ascii_letter c \<or> is_digit c \<or> c \<in> set ''.-'') 1 None,
      Lit ''.'',
      Rep is_ascii_letter 2 None]"

definition extract_email :: "string \<Rightarrow> string" where
  "extract_email text = (case re_search EMAIL_REGEX text of Some m \<Rightarrow> group0 m | None \<Rightarrow> [])"

text \<open>\<open>\+?\d[\d\s\-]{8,}\d\<close>\<close>

definition nlp_phone_rx :: rx where
  "nlp_phone_rx = seqs
     [Rep (\<lambda>c. c = CHR ''+'') 0 (Some 1),
      Cls is_digit,
      Rep (\<lambda>c. is_digit c \<or> is_space c \<or> c = CHR ''-'') 8 None,
      Cls is_digit]"

definition extract_phone :: "string \<Rightarrow> string" where
  "extract_phone text = (case re_search nlp_phone_rx text of Some m \<Rightarrow> str_strip (group0 m) | None \<Rightarrow> [])"

text \<open>The loop of \<open>extract_name\<close> over \<open>lines[:5]\<close>.\<close>

fun name_loop :: "string list \<Rightarrow> string" where
  "name_loop [] = []"
| "name_loop (line # rest) =
     (if str_contains ''@'' line then name_loop rest
      else if re_search (Cls is_digit) line \<noteq> None then name_loop rest
      else (let words = str_split line in
            if 1 < length words \<and> length words \<le> 4 then line else name_loop rest))"

definition extract_name :: "string \<Rightarrow> string" where
  "extract_name text =
     (let lines = filter (\<lambda>l. l \<noteq> []) (map str_strip (str_splitlines text))
      in name_loop (take 5 lines))"

section \<open>The single-section segmenter (find_section_block)\<close>

text \<open>\<open>rf"{re.escape(kw)}[:]?"\<close>\<close>

definition heading_rx :: "string \<Rightarrow> rx" where
  "heading_rx kw = seqs [Lit kw, Rep (\<lambda>c. c = CHR '':'') 0 (Some 1)]"

text \<open>The first loop: the index of the first line that is a heading for one of the keywords.\<close>

fun find_start :: "string list \<Rightarrow> nat \<Rightarrow> string list \<Rightarrow> nat option" where
  "find_start keywords i [] = None"
| "find_start keywords i (line # rest) =
     (if list_ex (\<lambda>kw. re_fullmatch True (heading_rx kw) (str_strip line)) keywords then Some i
      else find_start keywords (Suc i) rest)"

text \<open>\<open>^[A-Za-z ]+[:]\s*$\<close>\<close>

definition colon_heading_rx :: rx where
  "colon_heading_rx = seqs
     [Bol, Rep (\<lambda>c. is_ascii_letter c \<or> c = CHR '' '') 1 None, Cls (\<lambda>c. c = CHR '':''),
      Rep is_space 0 None, Eol]"

text \<open>The test of the second loop on a stripped line \<open>l\<close>.\<close>

definition probable_heading :: "string \<Rightarrow> bool" where
  "probable_heading l =
     ((str_isupper l \<and> length (str_split l) \<le> 5) \<or> re_match colon_heading_rx l \<noteq> None)"

text \<open>
  The second loop, from index \<open>j\<close> over the lines from \<open>j\<close> on: the index at which it breaks,
  or \<open>len(lines)\<close>.
\<close>

fun find_end :: "nat \<Rightarrow> string list \<Rightarrow> nat" where
  "find_end j [] = j"
| "find_end j (line # rest) =
     (if probable_heading (str_strip line) then j else find_end (Suc j) rest)"

definition find_section_block :: "string \<Rightarrow> string list \<Rightarrow> string" where
  "find_section_block text keywords =
     (let lines = str_splitlines text;
          lowered = map str_lower lines
      in case find_start keywords 0 lowered of
           None \<Rightarrow> []
         | Some start_idx \<Rightarrow>
             (let end_idx = find_end (start_idx + 1) (drop (start_idx + 1) lines)
              in str_strip (str_join [CHR 0x0A] (slice lines (start_idx + 1) end_idx))))"

text \<open>The characters of \<open>line.strip(" -\<dots>\t")\<close> that are below 256.\<close>

definition bullet_char :: "char \<Rightarrow> bool" where
  "bullet_char c = (c = CHR '' '' \<or> c = CHR ''-'' \<or> c = CHR 0xE2 \<or> c = CHR 0xA2 \<or> c = CHR 0x09)"

definition section_to_list :: "string \<Rightarrow> string list" where
  "section_to_list section_text =
     filter (\<lambda>l. l \<noteq> []) (map (strip_chars bullet_char) (str_splitlines section_text))"

text \<open>
  \<open>sorted(set(found), key=str.lower)\<close>: the skills are distinct and lowercase, so the order
  in which the set is read does not show in the result.
\<close>

definition extract_skills :: "string \<Rightarrow> string list" where
  "extract_skills text =
     (let t = str_lower text;
          found = filter (\<lambda>skill. str_contains (str_lower skill) t) SKILLS_DB
      in sort_key str_lower (remdups found))"

section \<open>The education sub-parser (parse_education)\<close>

text \<open>\<open>\b\d{2,3}\.?(\d+)?\s*%\<close>\<close>

definition perc_rx :: rx where
  "perc_rx = seqs
     [WordB, Rep is_digit 2 (Some 3), Rep (\<lambda>c. c = CHR ''.'') 0 (Some 1),
      Opt (Grp 1 (Rep is_digit 1 None)), Rep is_space 0 None, Lit ''%'']"

text \<open>\<open>\b\d\.\d{1,2}\b\<close>\<close>

definition cgpa_rx :: rx where
  "cgpa_rx = seqs [WordB, Cls is_digit, Lit ''.'', Rep is_digit 1 (Some 2), WordB]"

text \<open>\<open>\b(19|20)\d{2}\b\<close>\<close>

definition year_rx :: rx where
  "year_rx = seqs [WordB, Grp 1 (Alt (Lit ''19'') (Lit ''20'')), Rep is_digit 2 (Some 2), WordB]"

text \<open>\<open>\(([^)]+)\)\<close>\<close>

definition major_rx :: rx where
  "major_rx = seqs [Lit ''('', Grp 1 (Rep (\<lambda>c. c \<noteq> CHR '')'') 1 None), Lit '')'']"

text \<open>
  The three tiers run the same statements on their own keys. \<open>set_marks\<close> is the block that
  searches the percentage, the GPA and the year and stores what it finds; \<open>set_major\<close> is the
  block for the parenthesised major of the two college tiers.
\<close>

definition set_marks :: "string \<Rightarrow> string \<Rightarrow> string \<Rightarrow> string \<Rightarrow> schema \<Rightarrow> schema" where
  "set_marks gpa_key scale_key year_key line schema =
     (let perc = re_search perc_rx line;
          cgpa = re_search cgpa_rx line;
          year = re_search year_rx line;
          schema =
            (case perc of
               Some m \<Rightarrow> setitem (setitem schema gpa_key (Str (group0 m))) scale_key (Str ''percentage'')
             | None \<Rightarrow>
                 (case cgpa of
                    Some m \<Rightarrow> setitem (setitem schema gpa_key (Str (group0 m))) scale_key (Str ''cgpa'')
                  | None \<Rightarrow> schema))
      in case year of
           Some m \<Rightarrow> setitem schema year_key (Str (group0 m))
         | None \<Rightarrow> schema)"

definition set_major :: "string \<Rightarrow> string \<Rightarrow> schema \<Rightarrow> schema" where
  "set_major major_key line schema =
     (case re_search major_rx line of
        Some major \<Rightarrow> setitem schema major_key (Str (group major 1))
      | None \<Rightarrow> schema)"

definition hs_markers :: "string list" where
  "hs_markers = [''10th'', ''x '', ''ssc'', ''matric'', ''high school'']"

definition ug_markers :: "string list" where
  "ug_markers = [''b.tech'', ''b.e'', ''bsc'', ''bca'', ''b.com'', ''bachelor'']"

definition pg_markers :: "string list" where
  "pg_markers = [''m.tech'', ''m.e'', ''msc'', ''mca'', ''mba'', ''master'']"

text \<open>\<open>any(k in l for k in markers)\<close>\<close>

definition any_in :: "string list \<Rightarrow> string \<Rightarrow> bool" where
  "any_in markers l = list_ex (\<lambda>k. str_contains k l) markers"

text \<open>
  The body of the loop of \<open>parse_education\<close> for one line. The schema is updated in place
  in the source; the model returns the updated schema, or the exception.
\<close>

definition edu_line :: "string \<Rightarrow> schema \<Rightarrow> error + schema" where
  "edu_line line schema =
     (let l = str_lower line in
      if any_in hs_markers l then
        (case getitem schema ''highSchoolName'' of
           Inl e \<Rightarrow> Inl e
         | Inr name \<Rightarrow>
             Inr (set_marks ''highSchoolGpaOrPercentage'' ''highSchoolGpaScale''
                    ''highSchoolGraduationYear'' line
                    (setitem schema ''highSchoolName'' (py_or name (Str line)))))
      else if any_in ug_markers l then
        (case getitem schema ''ugCollegeName'' of
           Inl e \<Rightarrow> Inl e
         | Inr name \<Rightarrow>
             (let schema = setitem schema ''ugCollegeName'' (py_or name (Str line)) in
              case getitem schema ''ugDegree'' of
                Inl e \<Rightarrow> Inl e
              | Inr degree \<Rightarrow>
                  Inr (set_marks ''ugCollegeGpaOrPercentage'' ''ugCollegeGpaScale''
                         ''ugGraduationYear'' line
                         (set_major ''ugMajor'' line
                            (setitem schema ''ugDegree'' (py_or degree (Str ''Bachelor'')))))))
      else if any_in pg_markers l then
        (case getitem schema ''pgCollegeName'' of
           Inl e \<Rightarrow> Inl e
         | Inr name \<Rightarrow>
             (let schema = setitem schema ''pgCollegeName'' (py_or name (Str line)) in
              case getitem schema ''pgDegree'' of
                Inl e \<Rightarrow> Inl e
              | Inr degree \<Rightarrow>
                  Inr (set_marks ''pgCollegeGpaOrPercentage'' ''pgCollegeGpaScale''
                         ''pgGraduationYear'' line
                         (set_major ''pgMajor'' line
                            (setitem schema ''pgDegree'' (py_or degree (Str ''Master'')))))))
      else Inr schema)"

text \<open>The loop over the lines of the education block.\<close>

fun edu_lines :: "string list \<Rightarrow> schema \<Rightarrow> error + schema" where
  "edu_lines [] schema = Inr schema"
| "edu_lines (line # rest) schema =
     (case edu_line line schema of Inl e \<Rightarrow> Inl e | Inr schema' \<Rightarrow> edu_lines rest schema')"

definition edu_keywords :: "string list" where
  "edu_keywords = [''education'', ''academics'', ''academic details'']"

definition parse_education :: "string \<Rightarrow> schema \<Rightarrow> error + schema" where
  "parse_education text schema =
     (let edu_block = find_section_block text edu_keywords in
      if edu_block = [] then Inr schema
      else edu_lines (filter (\<lambda>l. l \<noteq> []) (map str_strip (str_splitlines edu_block))) schema)"

section \<open>The test-score sub-parser (parse_test_scores)\<close>

text \<open>\<open>rf"{keyword}\s*[:\-]\s*(\d+)"\<close>\<close>

definition score_rx :: "string \<Rightarrow> rx" where
  "score_rx keyword = seqs
     [Lit keyword, Rep is_space 0 None, Cls (\<lambda>c. c = CHR '':'' \<or> c = CHR ''-''),
      Rep is_space 0 None, Grp 1 (Rep is_digit 1 None)]"

definition grab_score :: "string \<Rightarrow> string \<Rightarrow> string" where
  "grab_score lower keyword =
     (case re_search (score_rx keyword) lower of Some m \<Rightarrow> group m 1 | None \<Rightarrow> [])"

text \<open>\<open>schema["testScores"][k]\<close>\<close>

definition get_score :: "schema \<Rightarrow> string \<Rightarrow> error + string" where
  "get_score schema k =
     (case getitem schema ''testScores'' of
        Inl e \<Rightarrow> Inl e
      | Inr (Dct scores) \<Rightarrow> getitem scores k
      | Inr _ \<Rightarrow> Inl TypeError)"

text \<open>\<open>schema["testScores"][k] = v\<close>\<close>

definition put_score :: "schema \<Rightarrow> string \<Rightarrow> string \<Rightarrow> error + schema" where
  "put_score schema k v =
     (case getitem schema ''testScores'' of
        Inl e \<Rightarrow> Inl e
      | Inr (Dct scores) \<Rightarrow> Inr (setitem schema ''testScores'' (Dct (setitem scores k v)))
      | Inr _ \<Rightarrow> Inl TypeError)"

text \<open>
  One statement \<open>schema["testScores"][k] = grab_score(k) or schema["testScores"][k]\<close>: the
  right-hand side first, reading the old score only when nothing was grabbed.
\<close>

definition set_score :: "string \<Rightarrow> string \<Rightarrow> schema \<Rightarrow> error + schema" where
  "set_score lower k schema =
     (let grabbed = grab_score lower k in
      case (if grabbed \<noteq> [] then Inr grabbed else get_score schema k) of
        Inl e \<Rightarrow> Inl e
      | Inr v \<Rightarrow> put_score schema k v)"

fun set_scores :: "string \<Rightarrow> string list \<Rightarrow> schema \<Rightarrow> error + schema" where
  "set_scores lower [] schema = Inr schema"
| "set_scores lower (k # ks) schema =
     (case set_score lower k schema of Inl e \<Rightarrow> Inl e | Inr schema' \<Rightarrow> set_scores lower ks schema')"

text \<open>The six statements of \<open>parse_test_scores\<close>, in their order.\<close>

definition score_names :: "string list" where
  "score_names = [''gre'', ''gmat'', ''sat'', ''act'', ''toefl'', ''ielts'']"

definition parse_test_scores :: "string \<Rightarrow> schema \<Rightarrow> error + schema" where
  "parse_test_scores text schema = set_scores (str_lower text) score_names schema"

section \<open>The pipeline (build_structured_data)\<close>

definition build_structured_data :: "string \<Rightarrow> error + schema" where
  "build_structured_data text =
     (let schema = empty_resume_schema;
          schema = setitem schema ''name'' (Str (extract_name text));
          schema = setitem schema ''email'' (Str (extract_email text));
          schema = setitem schema ''phoneNumber'' (Str (extract_phone text));
          exp_block = find_section_block text
                        [''experience'', ''work experience'', ''professional experience''];
          cert_block = find_section_block text [''certifications'', ''certification''];
          extra_block = find_section_block text
                          [''extra curricular'', ''extracurricular'', ''activities''];
          ach_block = find_section_block text [''achievements'', ''accomplishments''];
          pubs_block = find_section_block text
                         [''publications'', ''research'', ''research publications''];
          schema = setitem schema ''workExperience'' (Lst (section_to_list exp_block));
          schema = setitem schema ''certifications'' (Lst (section_to_list cert_block));
          schema = setitem schema ''extraCurricularActivities'' (Lst (section_to_list extra_block));
          schema = setitem schema ''achievements'' (Lst (section_to_list ach_block));
          schema = setitem schema ''researchPublications'' (Lst (section_to_list pubs_block));
          schema = setitem schema ''skills'' (Lst (extract_skills text))
      in case parse_education text schema of
           Inl e \<Rightarrow> Inl e
         | Inr schema' \<Rightarrow> parse_test_scores text schema')"

section \<open>The standalone application (app1.py)\<close>

text \<open>\<open>(\+?\d{1,3}[-.\s]?)?(\d{3,5}[-.\s]?\d{3,5}[-.\s]?\d{3,5})\<close>\<close>

definition phone_sep :: "char \<Rightarrow> bool" where
  "phone_sep c = (c = CHR ''-'' \<or> c = CHR ''.'' \<or> is_space c)"

definition PHONE_REGEX :: rx where
  "PHONE_REGEX = seqs
     [Opt (Grp 1 (seqs [Rep (\<lambda>c. c = CHR ''+'') 0 (Some 1), Rep is_digit 1 (Some 3),
                        Rep phone_sep 0 (Some 1)])),
      Grp 2 (seqs [Rep is_digit 3 (Some 5), Rep phone_sep 0 (Some 1),
                   Rep is_digit 3 (Some 5), Rep phone_sep 0 (Some 1),
                   Rep is_digit 3 (Some 5)])]"

text \<open>\<open>(https?://[^\s]+|www\.[^\s]+)\<close>\<close>

definition URL_REGEX :: rx where
  "URL_REGEX =
     Grp 1 (Alt (seqs [Lit ''http'', Rep (\<lambda>c. c = CHR ''s'') 0 (Some 1), Lit ''://'',
                       Rep (\<lambda>c. \<not> is_space c) 1 None])
                (seqs [Lit ''www.'', Rep (\<lambda>c. \<not> is_space c) 1 None]))"

text \<open>
  The loop of \<open>extract_phone\<close> over the tuples of \<open>re.findall\<close>; \<open>re.sub(r"\D", "", candidate)\<close>
  keeps the digits of the candidate.
\<close>

fun phone_loop :: "rmatch_obj list \<Rightarrow> string option" where
  "phone_loop [] = None"
| "phone_loop (m # rest) =
     (let candidate = group m 1 @ group m 2;
          digits = filter is_digit candidate
      in if 10 \<le> length digits \<and> length digits \<le> 13 then Some (str_strip candidate)
         else phone_loop rest)"

definition app1_extract_phone :: "string \<Rightarrow> string option" where
  "app1_extract_phone text =
     (let matches = re_findall PHONE_REGEX text in
      if matches = [] then None else phone_loop matches)"

text \<open>The loop of \<open>guess_name\<close> over \<open>lines[:8]\<close>.\<close>

fun guess_name_loop :: "string list \<Rightarrow> string option" where
  "guess_name_loop [] = None"
| "guess_name_loop (line # rest) =
     (let line_clean = str_strip line in
      if line_clean = [] then guess_name_loop rest
      else if re_search EMAIL_REGEX line_clean \<noteq> None then guess_name_loop rest
      else if re_search URL_REGEX line_clean \<noteq> None then guess_name_loop rest
      else if re_search PHONE_REGEX line_clean \<noteq> None then guess_name_loop rest
      else (let words = str_split line_clean in
            if 1 < length words \<and> length words \<le> 4 then
              (if list_all (\<lambda>w. list_ex is_alpha w) words then Some line_clean
               else guess_name_loop rest)
            else guess_name_loop rest))"

definition guess_name :: "string list \<Rightarrow> string option" where
  "guess_name lines = guess_name_loop (take 8 lines)"

definition split_lines :: "string \<Rightarrow> string list" where
  "split_lines text = filter (\<lambda>l. l \<noteq> []) (map str_strip (str_splitlines text))"

definition SECTION_HEADERS :: "(string \<times> string list) list" where
  "SECTION_HEADERS =
     [(''summary'', [''summary'', ''about me'', ''profile'']),
      (''education'', [''education'', ''academic'', ''qualification'', ''academics'']),
      (''experience'', [''experience'', ''work experience'', ''professional experience'',
                        ''employment'']),
      (''projects'', [''project'', ''projects'']),
      (''skills'', [''skills'', ''technical skills'', ''skills & tools''])]"

text \<open>
  The three nested loops that fill \<open>index_to_section\<close>, a dict from line index to section
  name, kept as an association list.
\<close>

fun scan_keywords :: "nat \<Rightarrow> string \<Rightarrow> string \<Rightarrow> string list \<Rightarrow> (nat \<times> string) list \<Rightarrow> (nat \<times> string) list" where
  "scan_keywords i line section [] d = d"
| "scan_keywords i line section (kw # kws) d =
     scan_keywords i line section kws
       (if re_fullmatch True (heading_rx kw) line then AList.update i section d else d)"

fun scan_headers :: "nat \<Rightarrow> string \<Rightarrow> (string \<times> string list) list \<Rightarrow> (nat \<times> string) list \<Rightarrow> (nat \<times> string) list" where
  "scan_headers i line [] d = d"
| "scan_headers i line ((section, keywords) # rest) d =
     scan_headers i line rest (scan_keywords i line section keywords d)"

fun scan_lines :: "nat \<Rightarrow> string list \<Rightarrow> (nat \<times> string) list \<Rightarrow> (nat \<times> string) list" where
  "scan_lines i [] d = d"
| "scan_lines i (raw_line # rest) d =
     scan_lines (Suc i) rest (scan_headers i (str_lower (str_strip raw_line)) SECTION_HEADERS d)"

text \<open>
  The loop over \<open>enumerate(sorted_indices)\<close>: \<open>todo\<close> is the part of \<open>sorted_indices\<close> from
  the current heading on.
\<close>

fun fill_sections :: "string list \<Rightarrow> (nat \<times> string) list \<Rightarrow> nat list \<Rightarrow> string dict \<Rightarrow> error + string dict" where
  "fill_sections lines d [] sections_text = Inr sections_text"
| "fill_sections lines d (start_line # todo) sections_text =
     (case map_of d start_line of
        None \<Rightarrow> Inl (KeyError [])
      | Some section_name \<Rightarrow>
          (let end_line = (case todo of [] \<Rightarrow> length lines | next_line # _ \<Rightarrow> next_line);
               content = str_strip (str_join [CHR 0x0A] (slice lines (start_line + 1) end_line))
           in case getitem sections_text section_name of
                Inl e \<Rightarrow> Inl e
              | Inr old \<Rightarrow>
                  fill_sections lines d todo
                    (setitem sections_text section_name
                       (if old \<noteq> [] then old @ [CHR 0x0A] @ content else content))))"

definition find_sections :: "string \<Rightarrow> error + string dict" where
  "find_sections text =
     (let lines = str_splitlines text;
          index_to_section = scan_lines 0 lines [];
          sections_text = map (\<lambda>(name, keywords). (name, [])) SECTION_HEADERS;
          sorted_indices = sort (map fst index_to_section)
      in if sorted_indices = [] then Inr (setitem sections_text ''summary'' text)
         else fill_sections lines index_to_section sorted_indices sections_text)"

section \<open>Notions used to state the properties\<close>

text \<open>
  The tier of an education line, as the \<open>if\<close>/\<open>elif\<close> chain of \<open>parse_education\<close> decides
  it, and the keys that the chain writes for each tier.
\<close>

datatype tier = Secondary | Undergraduate | Postgraduate

definition classify :: "string \<Rightarrow> tier option" where
  "classify line =
     (let l = str_lower line in
      if any_in hs_markers l then Some Secondary
      else if any_in ug_markers l then Some Undergraduate
      else if any_in pg_markers l then Some Postgraduate
      else None)"

fun name_key :: "tier \<Rightarrow> string" where
  "name_key Secondary = ''highSchoolName''"
| "name_key Undergraduate = ''ugCollegeName''"
| "name_key Postgraduate = ''pgCollegeName''"

fun gpa_key :: "tier \<Rightarrow> string" where
  "gpa_key Secondary = ''highSchoolGpaOrPercentage''"
| "gpa_key Undergraduate = ''ugCollegeGpaOrPercentage''"
| "gpa_key Postgraduate = ''pgCollegeGpaOrPercentage''"

fun scale_key :: "tier \<Rightarrow> string" where
  "scale_key Secondary = ''highSchoolGpaScale''"
| "scale_key Undergraduate = ''ugCollegeGpaScale''"
| "scale_key Postgraduate = ''pgCollegeGpaScale''"

fun year_key :: "tier \<Rightarrow> string" where
  "year_key Secondary = ''highSchoolGraduationYear''"
| "year_key Undergraduate = ''ugGraduationYear''"
| "year_key Postgraduate = ''pgGraduationYear''"

text \<open>The degree and major keys exist for the two college tiers only.\<close>

fun degree_key :: "tier \<Rightarrow> string option" where
  "degree_key Secondary = None"
| "degree_key Undergraduate = Some ''ugDegree''"
| "degree_key Postgraduate = Some ''pgDegree''"

fun major_key :: "tier \<Rightarrow> string option" where
  "major_key Secondary = None"
| "major_key Undergraduate = Some ''ugMajor''"
| "major_key Postgraduate = Some ''pgMajor''"

text \<open>The keys that \<open>parse_education\<close> assigns under an \<open>or\<close> with the old value.\<close>

definition guarded_keys :: "string list" where
  "guarded_keys = [''highSchoolName'', ''ugCollegeName'', ''ugDegree'', ''pgCollegeName'', ''pgDegree'']"

text \<open>The keys of the three education tiers: \<open>highSchool*\<close>, \<open>ug*\<close> and \<open>pg*\<close>.\<close>

definition education_key :: "string \<Rightarrow> bool" where
  "education_key k = (take 10 k = ''highSchool'' \<or> take 2 k = ''ug'' \<or> take 2 k = ''pg'')"

text \<open>A field of the schema that a call returned; the exception if it raised.\<close>

definition field :: "error + 'v dict \<Rightarrow> string \<Rightarrow> error + 'v" where
  "field r k = (case r of Inl e \<Rightarrow> Inl e | Inr d \<Rightarrow> getitem d k)"

text \<open>
  Two values are of the same kind when both are strings, both are lists, or both are dicts
  with the same keys in the same order. A schema conforms to another when it has the same
  keys in the same order, with values of the same kind.
\<close>

fun same_kind :: "val \<Rightarrow> val \<Rightarrow> bool" where
  "same_kind (Str a) (Str b) = True"
| "same_kind (Lst a) (Lst b) = True"
| "same_kind (Dct a) (Dct b) = (map fst a = map fst b)"
| "same_kind a b = False"

definition conforms :: "schema \<Rightarrow> schema \<Rightarrow> bool" where
  "conforms s b = (map fst s = map fst b \<and> list_all2 same_kind (map snd s) (map snd b))"

text \<open>
  A line is a heading of the multi-section segmenter when, trimmed and lowercased, it is one
  of the synonyms of \<open>SECTION_HEADERS\<close> with an optional colon after it.
\<close>

definition is_heading :: "string \<Rightarrow> bool" where
  "is_heading raw_line =
     list_ex (\<lambda>(section, keywords).
        list_ex (\<lambda>kw. re_fullmatch True (heading_rx kw) (str_lower (str_strip raw_line))) keywords)
       SECTION_HEADERS"

text \<open>
  The body that \<open>find_section_block\<close> cuts out below the heading at index \<open>i\<close>: the lines after
  the heading up to the first one that looks like a heading, joined and trimmed.
\<close>

definition block_below :: "string list \<Rightarrow> nat \<Rightarrow> string" where
  "block_below lines i =
     str_strip (str_join [CHR 0x0A]
       (takeWhile (\<lambda>line. \<not> probable_heading (str_strip line)) (drop (Suc i) lines)))"

text \<open>
  The lines that the two name guessers accept: \<open>guess_name\<close> of app1.py on a trimmed line,
  and \<open>extract_name\<close> of nlp.py, which rejects every line with an \<open>@\<close> or a digit and does not
  look at the letters of the words.
\<close>

definition name_line_ok :: "string \<Rightarrow> bool" where
  "name_line_ok l =
     (l \<noteq> [] \<and> re_search EMAIL_REGEX l = None \<and> re_search URL_REGEX l = None
      \<and> re_search PHONE_REGEX l = None
      \<and> 1 < length (str_split l) \<and> length (str_split l) \<le> 4
      \<and> list_all (\<lambda>w. list_ex is_alpha w) (str_split l))"

definition strict_name_line_ok :: "string \<Rightarrow> bool" where
  "strict_name_line_ok l =
     (\<not> str_contains ''@'' l \<and> \<not> list_ex is_digit l
      \<and> 1 < length (str_split l) \<and> length (str_split l) \<le> 4)"

text \<open>
  A phone candidate of app1.py, \<open>"".join(match)\<close>, and the test on the number of its digits.
\<close>

definition candidate :: "rmatch_obj \<Rightarrow> string" where
  "candidate m = group m 1 @ group m 2"

definition digit_count :: "string \<Rightarrow> nat" where
  "digit_count s = length (filter is_digit s)"

definition accepted :: "rmatch_obj \<Rightarrow> bool" where
  "accepted m = (10 \<le> digit_count (candidate m) \<and> digit_count (candidate m) \<le> 13)"

section \<open>Dicts\<close>

lemma getitem_setitem: "getitem (setitem d k v) k' = (if k' = k then Inr v else getitem d k')"
  by (simp add: getitem_def setitem_def update_conv')

lemma setitem_same: "getitem d k = Inr v \<Longrightarrow> setitem d k v = d"
  by (simp add: getitem_def setitem_def update_triv split: option.splits)

lemma keys_setitem:
  "map fst (setitem d k v) = (if k \<in> set (map fst d) then map fst d else map fst d @ [k])"
  by (simp add: setitem_def update_keys)

lemma getitem_Inr_key: "getitem d k = Inr v \<Longrightarrow> k \<in> set (map fst d)"
  by (auto simp: getitem_def split: option.splits dest: map_of_SomeD intro: rev_image_eqI)

lemma put_score_Inr:
  "put_score schema k v = Inr schema' \<Longrightarrow>
     get_score schema' k' = (if k' = k then Inr v else get_score schema k')"
  by (auto simp: put_score_def get_score_def getitem_setitem split: sum.splits val.splits)

lemma put_score_frame:
  "put_score schema k v = Inr schema' \<Longrightarrow> j \<noteq> ''testScores'' \<Longrightarrow> getitem schema' j = getitem schema j"
  by (auto simp: put_score_def getitem_setitem split: sum.splits val.splits)

lemma put_score_same: "get_score schema k = Inr v \<Longrightarrow> put_score schema k v = Inr schema"
  by (auto simp: put_score_def get_score_def setitem_same split: sum.splits val.splits)

lemma set_score_Inr:
  assumes "set_score lower k schema = Inr schema'"
  shows "get_score schema' k' =
           (if k' = k then (if grab_score lower k \<noteq> [] then Inr (grab_score lower k) else get_score schema k)
            else get_score schema k')"
proof (cases "grab_score lower k = []")
  case True
  with assms obtain v where v: "get_score schema k = Inr v" "put_score schema k v = Inr schema'"
    by (auto simp: set_score_def Let_def split: sum.splits)
  with True show ?thesis by (simp add: put_score_Inr)
next
  case False
  with assms have "put_score schema k (grab_score lower k) = Inr schema'"
    by (simp add: set_score_def Let_def)
  with False show ?thesis by (simp add: put_score_Inr)
qed

lemma set_score_same:
  assumes "get_score schema k = Inr v" and "grab_score lower k \<noteq> [] \<longrightarrow> v = grab_score lower k"
  shows "set_score lower k schema = Inr schema"
  using assms by (auto simp: set_score_def Let_def put_score_same)

lemma set_scores_Inr:
  "set_scores lower ks schema = Inr schema' \<Longrightarrow> distinct ks \<Longrightarrow>
     get_score schema' k =
       (if k \<in> set ks then (if grab_score lower k \<noteq> [] then Inr (grab_score lower k) else get_score schema k)
        else get_score schema k)"
proof (induction ks arbitrary: schema)
  case Nil
  then show ?case by simp
next
  case (Cons a ks)
  from Cons.prems obtain mid where mid: "set_score lower a schema = Inr mid" "set_scores lower ks mid = Inr schema'"
    by (auto split: sum.splits)
  from Cons.prems have d: "distinct ks" "a \<notin> set ks" by auto
  show ?case
    using Cons.IH[OF mid(2) d(1)] set_score_Inr[OF mid(1)] d(2) by auto
qed

lemma set_scores_same:
  "(\<And>k. k \<in> set ks \<Longrightarrow> \<exists>v. get_score schema k = Inr v \<and> (grab_score lower k \<noteq> [] \<longrightarrow> v = grab_score lower k)) \<Longrightarrow>
     set_scores lower ks schema = Inr schema"
proof (induction ks)
  case Nil
  then show ?case by simp
next
  case (Cons a ks)
  then obtain v where "get_score schema a = Inr v" "grab_score lower a \<noteq> [] \<longrightarrow> v = grab_score lower a"
    by (meson list.set_intros(1))
  then have "set_score lower a schema = Inr schema" by (rule set_score_same)
  with Cons show ?case by simp
qed

lemma set_score_defined:
  assumes "set_score lower k schema = Inr schema'"
  shows "\<exists>v. get_score schema' k = Inr v"
proof (cases "grab_score lower k = []")
  case True
  with assms obtain v where "get_score schema k = Inr v"
    by (auto simp: set_score_def Let_def split: sum.splits)
  with True set_score_Inr[OF assms, of k] show ?thesis by simp
next
  case False
  with set_score_Inr[OF assms, of k] show ?thesis by simp
qed

lemma set_score_keeps_defined:
  assumes "set_score lower k schema = Inr schema'" and "get_score schema j = Inr v"
  shows "\<exists>w. get_score schema' j = Inr w"
  using set_score_Inr[OF assms(1), of j] set_score_defined[OF assms(1)] assms(2)
  by (cases "j = k") auto

lemma set_scores_keeps_defined:
  "set_scores lower ks schema = Inr schema' \<Longrightarrow> get_score schema j = Inr v \<Longrightarrow>
     \<exists>w. get_score schema' j = Inr w"
proof (induction ks arbitrary: schema v)
  case Nil
  then show ?case by simp
next
  case (Cons a ks)
  from Cons.prems obtain mid where mid: "set_score lower a schema = Inr mid" "set_scores lower ks mid = Inr schema'"
    by (auto split: sum.splits)
  from set_score_keeps_defined[OF mid(1) Cons.prems(2)] obtain w where "get_score mid j = Inr w" ..
  from Cons.IH[OF mid(2) this] show ?case .
qed

lemma set_scores_defined:
  "set_scores lower ks schema = Inr schema' \<Longrightarrow> k \<in> set ks \<Longrightarrow> \<exists>v. get_score schema' k = Inr v"
proof (induction ks arbitrary: schema)
  case Nil
  then show ?case by simp
next
  case (Cons a ks)
  from Cons.prems obtain mid where mid: "set_score lower a schema = Inr mid" "set_scores lower ks mid = Inr schema'"
    by (auto split: sum.splits)
  show ?case
  proof (cases "k = a")
    case True
    from set_score_defined[OF mid(1)] obtain v where "get_score mid a = Inr v" ..
    from set_scores_keeps_defined[OF mid(2) this] True show ?thesis by simp
  next
    case False
    with Cons.prems have "k \<in> set ks" by simp
    from Cons.IH[OF mid(2) this] show ?thesis .
  qed
qed

section \<open>Test scores: the text wins over the previous value\<close>

text \<open>
  Claim C8, as amended. \<open>parse_test_scores\<close> stores \<open>grab_score(k) or old\<close>: for each of the
  six score names, when the text has a match the field becomes the grabbed digits whatever
  it held before, and when the text has no match the field keeps its value. A second call
  on the same text returns the schema of the first call unchanged.
\<close>

theorem parse_test_scores_text_wins:
  assumes "parse_test_scores text schema = Inr schema'"
  shows "(\<forall>k \<in> set score_names.
            get_score schema' k =
              (if grab_score (str_lower text) k \<noteq> [] then Inr (grab_score (str_lower text) k)
               else get_score schema k))
         \<and> parse_test_scores text schema' = Inr schema'"
proof -
  have d: "distinct score_names" by (simp add: score_names_def)
  from assms have r: "set_scores (str_lower text) score_names schema = Inr schema'"
    by (simp add: parse_test_scores_def)
  have g: "\<And>k. k \<in> set score_names \<Longrightarrow>
            get_score schema' k =
              (if grab_score (str_lower text) k \<noteq> [] then Inr (grab_score (str_lower text) k)
               else get_score schema k)"
    using set_scores_Inr[OF r d] by simp
  have "set_scores (str_lower text) score_names schema' = Inr schema'"
  proof (rule set_scores_same)
    fix k assume k: "k \<in> set score_names"
    show "\<exists>v. get_score schema' k = Inr v \<and> (grab_score (str_lower text) k \<noteq> [] \<longrightarrow> v = grab_score (str_lower text) k)"
    proof (cases "grab_score (str_lower text) k = []")
      case False
      with g[OF k] show ?thesis by simp
    next
      case True
      from set_scores_defined[OF r k] obtain v where "get_score schema' k = Inr v" ..
      with True show ?thesis by simp
    qed
  qed
  then show ?thesis using g by (simp add: parse_test_scores_def)
qed


theorem parse_test_scores_text_wins_witness:
  "parse_test_scores ''GRE: 320''
       [(''testScores'', Dct [(''gre'', ''300''), (''gmat'', []), (''sat'', []), (''act'', []),
                              (''toefl'', []), (''ielts'', [])])]
     = Inr [(''testScores'', Dct [(''gre'', ''320''), (''gmat'', []), (''sat'', []), (''act'', []),
                                  (''toefl'', []), (''ielts'', [])])]
   \<and> get_score [(''testScores'', Dct [(''gre'', ''320''), (''gmat'', []), (''sat'', []), (''act'', []),
                                      (''toefl'', []), (''ielts'', [])])] ''gre''
       = Inr (grab_score (str_lower ''GRE: 320'') ''gre'')
   \<and> parse_test_scores ''GRE: 320''
       [(''testScores'', Dct [(''gre'', ''320''), (''gmat'', []), (''sat'', []), (''act'', []),
                              (''toefl'', []), (''ielts'', [])])]
     = Inr [(''testScores'', Dct [(''gre'', ''320''), (''gmat'', []), (''sat'', []), (''act'', []),
                                  (''toefl'', []), (''ielts'', [])])]"
proof -
  have h: "parse_test_scores ''GRE: 320''
       [(''testScores'', Dct [(''gre'', ''300''), (''gmat'', []), (''sat'', []), (''act'', []),
                              (''toefl'', []), (''ielts'', [])])]
     = Inr [(''testScores'', Dct [(''gre'', ''320''), (''gmat'', []), (''sat'', []), (''act'', []),
                                  (''toefl'', []), (''ielts'', [])])]"
    by code_simp
  have g: "grab_score (str_lower ''GRE: 320'') ''gre'' \<noteq> []"
    by code_simp
  have k: "''gre'' \<in> set score_names"
    by (simp add: score_names_def)
  from parse_test_scores_text_wins[OF h] h g k show ?thesis
    by (metis (full_types))
qed

text \<open>
  The claim as stated fails: a score that is not empty before the call is replaced when
  the text has a match for it.
\<close>

theorem parse_test_scores_keeps_counterexample:
  "get_score [(''testScores'', Dct [(''gre'', ''300''), (''gmat'', []), (''sat'', []), (''act'', []),
                                    (''toefl'', []), (''ielts'', [])])] ''gre'' = Inr ''300''
   \<and> parse_test_scores ''GRE: 320''
        [(''testScores'', Dct [(''gre'', ''300''), (''gmat'', []), (''sat'', []), (''act'', []),
                               (''toefl'', []), (''ielts'', [])])]
       = Inr [(''testScores'', Dct [(''gre'', ''320''), (''gmat'', []), (''sat'', []), (''act'', []),
                                    (''toefl'', []), (''ielts'', [])])]"
  by code_simp

section \<open>Test scores: the keyword is searched without a word boundary\<close>

lemma lit_exact:
  "lit False k (p, s, g) =
     (if take (length k) s = k then [(if k = [] then p else Some (last k), drop (length k) s, g)] else [])"
proof (induction k arbitrary: p s)
  case Nil
  then show ?case by simp
next
  case (Cons a k)
  show ?case
  proof (cases s)
    case Nil
    then show ?thesis by simp
  next
    case (Cons c cs)
    with Cons.IH[of "Some c" cs] show ?thesis by auto
  qed
qed

lemma score_rx_needs_keyword:
  "take (length kw) s \<noteq> kw \<Longrightarrow> match_here False (score_rx kw) p s = None"
  by (simp add: match_here_def score_rx_def lit_exact)

lemma search_skip:
  "(\<And>a b q. pre = a @ b \<Longrightarrow> b \<noteq> [] \<Longrightarrow> match_here False r q (b @ rest) = None) \<Longrightarrow>
     search_from False r p (pre @ rest) = search_from False r (if pre = [] then p else Some (last pre)) rest"
proof (induction pre arbitrary: p)
  case Nil
  then show ?case by simp
next
  case (Cons c cs)
  have here: "match_here False r p ((c # cs) @ rest) = None"
    by (rule Cons.prems[of "[]"]) simp_all
  have "search_from False r (Some c) (cs @ rest)
          = search_from False r (if cs = [] then Some c else Some (last cs)) rest"
  proof (rule Cons.IH)
    fix a b q assume "cs = a @ b" "b \<noteq> []"
    then show "match_here False r q (b @ rest) = None"
      using Cons.prems[of "c # a" b q] by simp
  qed
  with here show ?case by simp
qed

lemma str_contains_here: "s \<noteq> [] \<Longrightarrow> take (length k) s = k \<Longrightarrow> str_contains k s"
  by (cases s) auto

lemma str_contains_suffix: "str_contains k b \<Longrightarrow> b \<noteq> [] \<Longrightarrow> str_contains k (a @ b)"
  by (induction a) (auto simp: neq_Nil_conv)

lemma rep_greedy_first:
  "lo \<le> length (takeWhile q s) \<Longrightarrow>
     \<exists>ys. rep q lo None (p, s, g) =
            (if takeWhile q s = [] then p else Some (last (takeWhile q s)), dropWhile q s, g) # ys"
proof (induction s arbitrary: lo p)
  case Nil
  then show ?case by simp
next
  case (Cons c cs)
  show ?case
  proof (cases "q c")
    case False
    with Cons.prems show ?thesis by simp
  next
    case True
    with Cons.prems have "lo - 1 \<le> length (takeWhile q cs)" by simp
    from Cons.IH[OF this, of "Some c"] obtain ys where
      "rep q (lo - 1) None (Some c, cs, g) =
         (if takeWhile q cs = [] then Some c else Some (last (takeWhile q cs)), dropWhile q cs, g) # ys"
      by blast
    with True show ?thesis by simp
  qed
qed

lemma take_upto_dropWhile:
  "take (length s - length (dropWhile q s)) s = takeWhile q s"
proof -
  have "length s = length (takeWhile q s) + length (dropWhile q s)"
    by (metis length_append takeWhile_dropWhile_id)
  then have "length s - length (dropWhile q s) = length (takeWhile q s)" by simp
  moreover have "take (length (takeWhile q s)) s = takeWhile q s"
    by (induction s) auto
  ultimately show ?thesis by simp
qed

lemma act_match_at:
  "match_here False (score_rx ''act'') p (''act: 9876543210'' @ post) =
     Some (''act: 9876543210'' @ takeWhile is_digit post, [(1, ''9876543210'' @ takeWhile is_digit post)])"
proof -
  have d: "is_digit CHR ''9''" "is_digit CHR ''8''" "is_digit CHR ''7''" "is_digit CHR ''6''"
    "is_digit CHR ''5''" "is_digit CHR ''4''" "is_digit CHR ''3''" "is_digit CHR ''2''"
    "is_digit CHR ''1''" "is_digit CHR ''0''"
    by (simp_all add: is_digit_def code_def)
  have sp: "\<not> is_space CHR '':''" "is_space CHR '' ''" "\<not> is_space CHR ''9''"
    by (simp_all add: is_space_def code_def)
  from rep_greedy_first[of 0 is_digit post "Some CHR ''0''" "[]"] obtain ys where
    ys: "rep is_digit 0 None (Some CHR ''0'', post, []) =
           (if takeWhile is_digit post = [] then Some CHR ''0'' else Some (last (takeWhile is_digit post)),
            dropWhile is_digit post, []) # ys"
    by auto
  have le: "length (dropWhile is_digit post) \<le> length post"
    by (rule length_dropWhile_le)
  have tk: "take (length post - length (dropWhile is_digit post)) post = takeWhile is_digit post"
    by (rule take_upto_dropWhile)
  show ?thesis
    using le by (simp add: match_here_def score_rx_def lit_exact d sp ys Suc_diff_le tk)
qed


lemma act_not_across:
  assumes "\<not> str_contains ''act'' (a @ b)" and "b \<noteq> []"
  shows "take (length ''act'') (b @ ''contact: 9876543210'' @ post) \<noteq> ''act''"
proof (cases b)
  case Nil
  with assms show ?thesis by simp
next
  case b1: (Cons x t1)
  show ?thesis
  proof (cases t1)
    case Nil
    with b1 show ?thesis by simp
  next
    case b2: (Cons y t2)
    show ?thesis
    proof (cases t2)
      case Nil
      with b1 b2 show ?thesis by simp
    next
      case b3: (Cons z t3)
      have "\<not> str_contains ''act'' b"
        using assms str_contains_suffix by blast
      then have "take (length ''act'') b \<noteq> ''act''"
        using str_contains_here assms(2) by blast
      with b1 b2 b3 show ?thesis by simp
    qed
  qed
qed

lemma grab_act_inside_contact:
  assumes "\<not> str_contains ''act'' pre"
  shows "grab_score (pre @ ''contact: 9876543210'' @ post) ''act'' = ''9876543210'' @ takeWhile is_digit post"
proof -
  let ?r = "score_rx ''act''"
  have skip: "search_from False ?r None (pre @ ''contact: 9876543210'' @ post)
                = search_from False ?r (if pre = [] then None else Some (last pre)) (''contact: 9876543210'' @ post)"
  proof (rule search_skip)
    fix a b q assume "pre = a @ b" "b \<noteq> []"
    with assms have "take (length ''act'') (b @ ''contact: 9876543210'' @ post) \<noteq> ''act''"
      using act_not_across by blast
    then show "match_here False ?r q (b @ ''contact: 9876543210'' @ post) = None"
      by (rule score_rx_needs_keyword)
  qed
  have four: "search_from False ?r q (''contact: 9876543210'' @ post)
                = Some (''act: 9876543210'' @ takeWhile is_digit post, [(1, ''9876543210'' @ takeWhile is_digit post)])" for q
    by (simp add: score_rx_needs_keyword act_match_at[simplified])
  show ?thesis
    by (simp only: grab_score_def re_search_def skip four) (simp add: group_def)
qed

text \<open>
  Claim C10. Take any text whose lowercased form holds \<open>contact: 9876543210\<close>, with no
  \<open>act\<close> before it. The text names no ACT score there, yet whenever \<open>parse_test_scores\<close>
  returns, the \<open>act\<close> score is the run of digits after the colon: \<open>act\<close> is found inside
  \<open>contact\<close>, since the pattern asks for no word boundary.
\<close>

theorem act_found_inside_contact:
  assumes "str_lower text = pre @ ''contact: 9876543210'' @ post"
    and "\<not> str_contains ''act'' pre"
    and "parse_test_scores text schema = Inr schema'"
  shows "get_score schema' ''act'' = Inr (''9876543210'' @ takeWhile is_digit post)"
proof -
  have g: "grab_score (str_lower text) ''act'' = ''9876543210'' @ takeWhile is_digit post"
    unfolding assms(1) using assms(2) by (rule grab_act_inside_contact)
  have d: "distinct score_names"
    by (simp add: score_names_def)
  from assms(3) have "set_scores (str_lower text) score_names schema = Inr schema'"
    by (simp only: parse_test_scores_def)
  from set_scores_Inr[OF this d, of "''act''"] g show ?thesis
    by (simp add: score_names_def)
qed

theorem act_found_inside_contact_witness:
  "parse_test_scores ''Jane Roe\<newline>Contact: 9876543210\<newline>Pune'' empty_resume_schema
     = Inr (setitem empty_resume_schema ''testScores''
              (Dct [(''sat'', []), (''act'', ''9876543210''), (''gre'', []), (''gmat'', []),
                    (''toefl'', []), (''ielts'', [])]))
   \<and> get_score (setitem empty_resume_schema ''testScores''
              (Dct [(''sat'', []), (''act'', ''9876543210''), (''gre'', []), (''gmat'', []),
                    (''toefl'', []), (''ielts'', [])])) ''act'' = Inr ''9876543210''"
proof -
  have l: "str_lower ''Jane Roe\<newline>Contact: 9876543210\<newline>Pune''
             = ''jane roe\<newline>'' @ ''contact: 9876543210'' @ ''\<newline>pune''"
    by code_simp
  have n: "\<not> str_contains ''act'' ''jane roe\<newline>''"
    by code_simp
  have t: "takeWhile is_digit ''\<newline>pune'' = []"
    by code_simp
  have h: "parse_test_scores ''Jane Roe\<newline>Contact: 9876543210\<newline>Pune'' empty_resume_schema
     = Inr (setitem empty_resume_schema ''testScores''
              (Dct [(''sat'', []), (''act'', ''9876543210''), (''gre'', []), (''gmat'', []),
                    (''toefl'', []), (''ielts'', [])]))"
    by code_simp
  from act_found_inside_contact[OF l n h] t
  have "get_score (setitem empty_resume_schema ''testScores''
              (Dct [(''sat'', []), (''act'', ''9876543210''), (''gre'', []), (''gmat'', []),
                    (''toefl'', []), (''ielts'', [])])) ''act'' = Inr ''9876543210''"
    by simp
  with h show ?thesis by (intro conjI)
qed

section \<open>The education sub-parser, line by line\<close>

lemma set_marks_frame:
  "j \<noteq> gk \<Longrightarrow> j \<noteq> sk \<Longrightarrow> j \<noteq> yk \<Longrightarrow> getitem (set_marks gk sk yk line s) j = getitem s j"
  by (simp add: set_marks_def Let_def getitem_setitem split: option.splits)

lemma set_marks_year:
  "getitem (set_marks gk sk yk line s) yk =
     (case re_search year_rx line of Some m \<Rightarrow> Inr (Str (group0 m))
      | None \<Rightarrow> getitem (set_marks gk sk yk line s) yk)"
  by (simp add: set_marks_def Let_def getitem_setitem split: option.splits)

lemma set_marks_gpa:
  "gk \<noteq> sk \<Longrightarrow> gk \<noteq> yk \<Longrightarrow>
   getitem (set_marks gk sk yk line s) gk =
     (case re_search perc_rx line of Some m \<Rightarrow> Inr (Str (group0 m))
      | None \<Rightarrow> (case re_search cgpa_rx line of Some m \<Rightarrow> Inr (Str (group0 m)) | None \<Rightarrow> getitem s gk))"
  by (simp add: set_marks_def Let_def getitem_setitem split: option.splits)

lemma set_marks_scale:
  "sk \<noteq> yk \<Longrightarrow>
   getitem (set_marks gk sk yk line s) sk =
     (case re_search perc_rx line of Some m \<Rightarrow> Inr (Str ''percentage'')
      | None \<Rightarrow> (case re_search cgpa_rx line of Some m \<Rightarrow> Inr (Str ''cgpa'') | None \<Rightarrow> getitem s sk))"
  by (simp add: set_marks_def Let_def getitem_setitem split: option.splits)

lemma set_major_get:
  "getitem (set_major mk line s) j =
     (case re_search major_rx line of Some m \<Rightarrow> (if j = mk then Inr (Str (group m 1)) else getitem s j)
      | None \<Rightarrow> getitem s j)"
  by (simp add: set_major_def getitem_setitem split: option.splits)

text \<open>What one line does, tier by tier.\<close>

lemma edu_line_Secondary:
  assumes "classify line = Some Secondary" and "edu_line line s = Inr s'"
  shows "\<exists>name. getitem s ''highSchoolName'' = Inr name \<and>
           s' = set_marks ''highSchoolGpaOrPercentage'' ''highSchoolGpaScale'' ''highSchoolGraduationYear'' line
                  (setitem s ''highSchoolName'' (py_or name (Str line)))"
  using assms by (auto simp: classify_def edu_line_def Let_def split: if_splits sum.splits)

lemma edu_line_Undergraduate:
  assumes "classify line = Some Undergraduate" and "edu_line line s = Inr s'"
  shows "\<exists>name degree. getitem s ''ugCollegeName'' = Inr name \<and> getitem s ''ugDegree'' = Inr degree \<and>
           s' = set_marks ''ugCollegeGpaOrPercentage'' ''ugCollegeGpaScale'' ''ugGraduationYear'' line
                  (set_major ''ugMajor'' line
                     (setitem (setitem s ''ugCollegeName'' (py_or name (Str line))) ''ugDegree''
                        (py_or degree (Str ''Bachelor''))))"
  using assms by (auto simp: classify_def edu_line_def Let_def getitem_setitem split: if_splits sum.splits)

lemma edu_line_Postgraduate:
  assumes "classify line = Some Postgraduate" and "edu_line line s = Inr s'"
  shows "\<exists>name degree. getitem s ''pgCollegeName'' = Inr name \<and> getitem s ''pgDegree'' = Inr degree \<and>
           s' = set_marks ''pgCollegeGpaOrPercentage'' ''pgCollegeGpaScale'' ''pgGraduationYear'' line
                  (set_major ''pgMajor'' line
                     (setitem (setitem s ''pgCollegeName'' (py_or name (Str line))) ''pgDegree''
                        (py_or degree (Str ''Master''))))"
  using assms by (auto simp: classify_def edu_line_def Let_def getitem_setitem split: if_splits sum.splits)

lemma edu_line_unclassified:
  "classify line = None \<Longrightarrow> edu_line line s = Inr s"
  by (auto simp: classify_def edu_line_def Let_def split: if_splits)

lemma not_education_key:
  assumes "\<not> education_key j"
  shows "j \<noteq> ''highSchoolName''" "j \<noteq> ''highSchoolGpaOrPercentage''" "j \<noteq> ''highSchoolGpaScale''"
    "j \<noteq> ''highSchoolGraduationYear''"
    "j \<noteq> ''ugCollegeName''" "j \<noteq> ''ugDegree''" "j \<noteq> ''ugMajor''" "j \<noteq> ''ugCollegeGpaOrPercentage''"
    "j \<noteq> ''ugCollegeGpaScale''" "j \<noteq> ''ugGraduationYear''"
    "j \<noteq> ''pgCollegeName''" "j \<noteq> ''pgDegree''" "j \<noteq> ''pgMajor''" "j \<noteq> ''pgCollegeGpaOrPercentage''"
    "j \<noteq> ''pgCollegeGpaScale''" "j \<noteq> ''pgGraduationYear''"
  using assms by (auto simp: education_key_def)

lemma edu_line_frame:
  assumes "edu_line line s = Inr s'" and "\<not> education_key j"
  shows "getitem s' j = getitem s j"
proof (cases "classify line")
  case None
  with assms show ?thesis by (simp add: edu_line_unclassified)
next
  case (Some T)
  note j = not_education_key[OF assms(2)]
  show ?thesis
  proof (cases T)
    case Secondary
    with Some edu_line_Secondary[OF _ assms(1)] j show ?thesis
      by (auto simp: set_marks_frame getitem_setitem)
  next
    case Undergraduate
    with Some edu_line_Undergraduate[OF _ assms(1)] j show ?thesis
      by (auto simp: set_marks_frame set_major_get getitem_setitem split: option.splits)
  next
    case Postgraduate
    with Some edu_line_Postgraduate[OF _ assms(1)] j show ?thesis
      by (auto simp: set_marks_frame set_major_get getitem_setitem split: option.splits)
  qed
qed

lemma edu_lines_frame:
  "edu_lines ls s = Inr s' \<Longrightarrow> \<not> education_key j \<Longrightarrow> getitem s' j = getitem s j"
proof (induction ls arbitrary: s)
  case Nil
  then show ?case by simp
next
  case (Cons l ls)
  from Cons.prems(1) obtain mid where mid: "edu_line l s = Inr mid" "edu_lines ls mid = Inr s'"
    by (auto split: sum.splits)
  from Cons.IH[OF mid(2) Cons.prems(2)] edu_line_frame[OF mid(1) Cons.prems(2)] show ?case by simp
qed

text \<open>A guarded key that holds a truthy value keeps it.\<close>

lemma edu_line_guarded:
  assumes "edu_line line s = Inr s'" and "k \<in> set guarded_keys"
    and "getitem s k = Inr v" and "truthy v"
  shows "getitem s' k = Inr v"
proof (cases "classify line")
  case None
  with assms show ?thesis by (simp add: edu_line_unclassified)
next
  case (Some T)
  show ?thesis
  proof (cases T)
    case Secondary
    with Some edu_line_Secondary[OF _ assms(1)] assms(2-4) show ?thesis
      by (auto simp: guarded_keys_def set_marks_frame getitem_setitem py_or_def)
  next
    case Undergraduate
    with Some edu_line_Undergraduate[OF _ assms(1)] assms(2-4) show ?thesis
      by (auto simp: guarded_keys_def set_marks_frame set_major_get getitem_setitem py_or_def split: option.splits)
  next
    case Postgraduate
    with Some edu_line_Postgraduate[OF _ assms(1)] assms(2-4) show ?thesis
      by (auto simp: guarded_keys_def set_marks_frame set_major_get getitem_setitem py_or_def split: option.splits)
  qed
qed

lemma edu_lines_guarded:
  "edu_lines ls s = Inr s' \<Longrightarrow> k \<in> set guarded_keys \<Longrightarrow> getitem s k = Inr v \<Longrightarrow> truthy v \<Longrightarrow>
     getitem s' k = Inr v"
proof (induction ls arbitrary: s)
  case Nil
  then show ?case by simp
next
  case (Cons l ls)
  from Cons.prems(1) obtain mid where mid: "edu_line l s = Inr mid" "edu_lines ls mid = Inr s'"
    by (auto split: sum.splits)
  from edu_line_guarded[OF mid(1) Cons.prems(2,3,4)] have "getitem mid k = Inr v" .
  from Cons.IH[OF mid(2) Cons.prems(2) this Cons.prems(4)] show ?case .
qed

text \<open>The unguarded fields after one line of tier \<open>T\<close>.\<close>

lemma edu_line_year:
  assumes "edu_line line s = Inr s'" and "classify line = Some T"
  shows "getitem s' (year_key T) =
           (case re_search year_rx line of Some m \<Rightarrow> Inr (Str (group0 m)) | None \<Rightarrow> getitem s (year_key T))"
proof (cases T)
  case Secondary
  with assms edu_line_Secondary[OF _ assms(1)] show ?thesis
    by (auto simp: set_marks_def Let_def getitem_setitem split: option.splits)
next
  case Undergraduate
  with assms edu_line_Undergraduate[OF _ assms(1)] show ?thesis
    by (auto simp: set_marks_def set_major_def Let_def getitem_setitem split: option.splits)
next
  case Postgraduate
  with assms edu_line_Postgraduate[OF _ assms(1)] show ?thesis
    by (auto simp: set_marks_def set_major_def Let_def getitem_setitem split: option.splits)
qed

lemma edu_line_gpa:
  assumes "edu_line line s = Inr s'" and "classify line = Some T"
  shows "getitem s' (gpa_key T) =
           (case re_search perc_rx line of Some m \<Rightarrow> Inr (Str (group0 m))
            | None \<Rightarrow> (case re_search cgpa_rx line of Some m \<Rightarrow> Inr (Str (group0 m))
                        | None \<Rightarrow> getitem s (gpa_key T)))"
proof (cases T)
  case Secondary
  with assms edu_line_Secondary[OF _ assms(1)] show ?thesis
    by (auto simp: set_marks_gpa getitem_setitem split: option.splits)
next
  case Undergraduate
  with assms edu_line_Undergraduate[OF _ assms(1)] show ?thesis
    by (auto simp: set_marks_gpa set_major_get getitem_setitem split: option.splits)
next
  case Postgraduate
  with assms edu_line_Postgraduate[OF _ assms(1)] show ?thesis
    by (auto simp: set_marks_gpa set_major_get getitem_setitem split: option.splits)
qed

lemma edu_line_scale:
  assumes "edu_line line s = Inr s'" and "classify line = Some T"
  shows "getitem s' (scale_key T) =
           (case re_search perc_rx line of Some m \<Rightarrow> Inr (Str ''percentage'')
            | None \<Rightarrow> (case re_search cgpa_rx line of Some m \<Rightarrow> Inr (Str ''cgpa'')
                        | None \<Rightarrow> getitem s (scale_key T)))"
proof (cases T)
  case Secondary
  with assms edu_line_Secondary[OF _ assms(1)] show ?thesis
    by (auto simp: set_marks_scale getitem_setitem split: option.splits)
next
  case Undergraduate
  with assms edu_line_Undergraduate[OF _ assms(1)] show ?thesis
    by (auto simp: set_marks_scale set_major_get getitem_setitem split: option.splits)
next
  case Postgraduate
  with assms edu_line_Postgraduate[OF _ assms(1)] show ?thesis
    by (auto simp: set_marks_scale set_major_get getitem_setitem split: option.splits)
qed

lemma edu_line_major:
  assumes "edu_line line s = Inr s'" and "classify line = Some T" and "major_key T = Some mk"
  shows "getitem s' mk =
           (case re_search major_rx line of Some m \<Rightarrow> Inr (Str (group m 1)) | None \<Rightarrow> getitem s mk)"
proof (cases T)
  case Secondary
  with assms show ?thesis by simp
next
  case Undergraduate
  with assms edu_line_Undergraduate[OF _ assms(1)] show ?thesis
    by (auto simp: set_marks_frame set_major_get getitem_setitem split: option.splits)
next
  case Postgraduate
  with assms edu_line_Postgraduate[OF _ assms(1)] show ?thesis
    by (auto simp: set_marks_frame set_major_get getitem_setitem split: option.splits)
qed

lemma setitem_defined:
  "\<exists>v. getitem d j = Inr v \<Longrightarrow> \<exists>w. getitem (setitem d k u) j = Inr w"
  by (auto simp: getitem_setitem)

lemma set_marks_defined:
  "\<exists>v. getitem s j = Inr v \<Longrightarrow> \<exists>w. getitem (set_marks gk sk yk line s) j = Inr w"
  by (auto simp: set_marks_def Let_def getitem_setitem split: option.splits)

lemma set_major_defined:
  "\<exists>v. getitem s j = Inr v \<Longrightarrow> \<exists>w. getitem (set_major mk line s) j = Inr w"
  by (auto simp: set_major_def getitem_setitem split: option.splits)

lemma edu_line_total:
  assumes "\<And>k. k \<in> set guarded_keys \<Longrightarrow> \<exists>v. getitem s k = Inr v"
  shows "\<exists>s'. edu_line line s = Inr s'"
proof -
  obtain a where a: "getitem s ''highSchoolName'' = Inr a"
    using assms[of "''highSchoolName''"] by (auto simp: guarded_keys_def)
  obtain b where b: "getitem s ''ugCollegeName'' = Inr b"
    using assms[of "''ugCollegeName''"] by (auto simp: guarded_keys_def)
  obtain c where c: "getitem s ''ugDegree'' = Inr c"
    using assms[of "''ugDegree''"] by (auto simp: guarded_keys_def)
  obtain d where d: "getitem s ''pgCollegeName'' = Inr d"
    using assms[of "''pgCollegeName''"] by (auto simp: guarded_keys_def)
  obtain e where e: "getitem s ''pgDegree'' = Inr e"
    using assms[of "''pgDegree''"] by (auto simp: guarded_keys_def)
  show ?thesis
    by (simp add: edu_line_def Let_def getitem_setitem a b c d e)
qed

lemma edu_line_keeps_defined:
  assumes "edu_line line s = Inr s'" and "\<exists>v. getitem s j = Inr v"
  shows "\<exists>w. getitem s' j = Inr w"
proof (cases "classify line")
  case None
  with assms show ?thesis by (simp add: edu_line_unclassified)
next
  case (Some T)
  show ?thesis
  proof (cases T)
    case Secondary
    with Some edu_line_Secondary[OF _ assms(1)] obtain name where
      "s' = set_marks ''highSchoolGpaOrPercentage'' ''highSchoolGpaScale'' ''highSchoolGraduationYear'' line
                  (setitem s ''highSchoolName'' (py_or name (Str line)))" by auto
    then show ?thesis
      using assms(2) by (simp only:) (intro set_marks_defined setitem_defined)
  next
    case Undergraduate
    with Some edu_line_Undergraduate[OF _ assms(1)] obtain name degree where
      "s' = set_marks ''ugCollegeGpaOrPercentage'' ''ugCollegeGpaScale'' ''ugGraduationYear'' line
                  (set_major ''ugMajor'' line
                     (setitem (setitem s ''ugCollegeName'' (py_or name (Str line))) ''ugDegree''
                        (py_or degree (Str ''Bachelor''))))" by auto
    then show ?thesis
      using assms(2) by (simp only:) (intro set_marks_defined set_major_defined setitem_defined)
  next
    case Postgraduate
    with Some edu_line_Postgraduate[OF _ assms(1)] obtain name degree where
      "s' = set_marks ''pgCollegeGpaOrPercentage'' ''pgCollegeGpaScale'' ''pgGraduationYear'' line
                  (set_major ''pgMajor'' line
                     (setitem (setitem s ''pgCollegeName'' (py_or name (Str line))) ''pgDegree''
                        (py_or degree (Str ''Master''))))" by auto
    then show ?thesis
      using assms(2) by (simp only:) (intro set_marks_defined set_major_defined setitem_defined)
  qed
qed

lemma edu_lines_total:
  "(\<And>k. k \<in> set guarded_keys \<Longrightarrow> \<exists>v. getitem s k = Inr v) \<Longrightarrow> \<exists>s'. edu_lines ls s = Inr s'"
proof (induction ls arbitrary: s)
  case Nil
  then show ?case by simp
next
  case (Cons l ls)
  from edu_line_total[of s l] Cons.prems obtain mid where mid: "edu_line l s = Inr mid" by blast
  have "\<And>k. k \<in> set guarded_keys \<Longrightarrow> \<exists>v. getitem mid k = Inr v"
    by (rule edu_line_keeps_defined[OF mid]) (rule Cons.prems)
  from Cons.IH[OF this] mid show ?case by simp
qed

section \<open>The education sub-parser writes education keys only\<close>

text \<open>
  Claim C9. On a schema that holds the five keys \<open>parse_education\<close> reads, the call returns.
  Whenever it returns, every key that is not a \<open>highSchool*\<close>, \<open>ug*\<close> or \<open>pg*\<close> key reads as
  before the call, and when no line of the text is an education heading the schema is
  returned unchanged.
\<close>

theorem parse_education_frame:
  "((\<forall>k \<in> set guarded_keys. \<exists>v. getitem schema k = Inr v) \<longrightarrow>
      (\<exists>schema'. parse_education text schema = Inr schema'))
   \<and> (\<forall>schema'. parse_education text schema = Inr schema' \<longrightarrow>
        (\<forall>j. \<not> education_key j \<longrightarrow> getitem schema' j = getitem schema j)
        \<and> (find_start edu_keywords 0 (map str_lower (str_splitlines text)) = None \<longrightarrow> schema' = schema))"
proof (intro conjI impI allI)
  assume "\<forall>k \<in> set guarded_keys. \<exists>v. getitem schema k = Inr v"
  then show "\<exists>schema'. parse_education text schema = Inr schema'"
    using edu_lines_total[of schema] by (simp add: parse_education_def Let_def)
next
  fix schema' j
  assume "parse_education text schema = Inr schema'" and "\<not> education_key j"
  then show "getitem schema' j = getitem schema j"
    by (auto simp: parse_education_def Let_def edu_lines_frame split: if_splits)
next
  fix schema'
  assume "parse_education text schema = Inr schema'"
    and "find_start edu_keywords 0 (map str_lower (str_splitlines text)) = None"
  then show "schema' = schema"
    by (simp add: parse_education_def find_section_block_def Let_def)
qed

theorem parse_education_frame_witness:
  "field (parse_education ''Jane Roe\<newline>Education\<newline>B.Tech (Physics) 2019 72%'' empty_resume_schema) ''name''
     = getitem empty_resume_schema ''name''
   \<and> field (parse_education ''Jane Roe\<newline>Education\<newline>B.Tech (Physics) 2019 72%'' empty_resume_schema) ''ugMajor''
     = Inr (Str ''Physics'')
   \<and> parse_education ''Jane Roe\<newline>B.Tech (Physics) 2019 72%'' empty_resume_schema = Inr empty_resume_schema"
proof -
  have g: "\<forall>k \<in> set guarded_keys. \<exists>v. getitem empty_resume_schema k = Inr v"
    by (simp add: guarded_keys_def empty_resume_schema_def BASE_RESUME_SCHEMA_def getitem_def)
  have n: "\<not> education_key ''name''"
    by (simp add: education_key_def)
  have h: "find_start edu_keywords 0 (map str_lower (str_splitlines ''Jane Roe\<newline>B.Tech (Physics) 2019 72%'')) = None"
    by code_simp
  have m: "field (parse_education ''Jane Roe\<newline>Education\<newline>B.Tech (Physics) 2019 72%'' empty_resume_schema) ''ugMajor''
     = Inr (Str ''Physics'')"
    by code_simp
  from parse_education_frame[of empty_resume_schema "''Jane Roe\<newline>Education\<newline>B.Tech (Physics) 2019 72%''"] g n
  have 1: "field (parse_education ''Jane Roe\<newline>Education\<newline>B.Tech (Physics) 2019 72%'' empty_resume_schema) ''name''
     = getitem empty_resume_schema ''name''"
    by (auto simp: field_def)
  from parse_education_frame[of empty_resume_schema "''Jane Roe\<newline>B.Tech (Physics) 2019 72%''"] g h
  have 2: "parse_education ''Jane Roe\<newline>B.Tech (Physics) 2019 72%'' empty_resume_schema = Inr empty_resume_schema"
    by auto
  from 1 m 2 show ?thesis by simp
qed

section \<open>Which education fields the first line keeps\<close>

text \<open>
  Claim C2, as amended. Only the institution name and the degree label are assigned under
  an \<open>or\<close> with the old value: once one of them is not empty, no later line changes it. The
  graduation year, the grade, the grade scale and the major are assigned without a guard:
  a line of tier \<open>T\<close> replaces each of them whenever its pattern matches the line, whatever
  the field held, and leaves it as it was when the pattern does not match.
\<close>

theorem first_line_wins_for_name_and_degree_only:
  "(\<forall>s'. edu_lines lines s = Inr s' \<longrightarrow>
      (\<forall>k \<in> set guarded_keys. \<forall>v. getitem s k = Inr v \<and> truthy v \<longrightarrow> getitem s' k = Inr v))
   \<and> (\<forall>s' T. edu_line line s = Inr s' \<and> classify line = Some T \<longrightarrow>
        getitem s' (year_key T) =
          (case re_search year_rx line of Some m \<Rightarrow> Inr (Str (group0 m))
           | None \<Rightarrow> getitem s (year_key T))
        \<and> getitem s' (gpa_key T) =
          (case re_search perc_rx line of Some m \<Rightarrow> Inr (Str (group0 m))
           | None \<Rightarrow> (case re_search cgpa_rx line of Some m \<Rightarrow> Inr (Str (group0 m))
                       | None \<Rightarrow> getitem s (gpa_key T)))
        \<and> getitem s' (scale_key T) =
          (case re_search perc_rx line of Some m \<Rightarrow> Inr (Str ''percentage'')
           | None \<Rightarrow> (case re_search cgpa_rx line of Some m \<Rightarrow> Inr (Str ''cgpa'')
                       | None \<Rightarrow> getitem s (scale_key T)))
        \<and> (\<forall>mk. major_key T = Some mk \<longrightarrow>
              getitem s' mk =
                (case re_search major_rx line of Some m \<Rightarrow> Inr (Str (group m 1))
                 | None \<Rightarrow> getitem s mk)))"
proof (intro conjI allI impI ballI)
  fix s' k v
  assume "edu_lines lines s = Inr s'" "k \<in> set guarded_keys" "getitem s k = Inr v \<and> truthy v"
  then show "getitem s' k = Inr v"
    using edu_lines_guarded by blast
next
  fix s' T
  assume a: "edu_line line s = Inr s' \<and> classify line = Some T"
  then show "getitem s' (year_key T) =
          (case re_search year_rx line of Some m \<Rightarrow> Inr (Str (group0 m))
           | None \<Rightarrow> getitem s (year_key T))"
    by (simp add: edu_line_year)
  from a show "getitem s' (gpa_key T) =
          (case re_search perc_rx line of Some m \<Rightarrow> Inr (Str (group0 m))
           | None \<Rightarrow> (case re_search cgpa_rx line of Some m \<Rightarrow> Inr (Str (group0 m))
                       | None \<Rightarrow> getitem s (gpa_key T)))"
    by (simp add: edu_line_gpa)
  from a show "getitem s' (scale_key T) =
          (case re_search perc_rx line of Some m \<Rightarrow> Inr (Str ''percentage'')
           | None \<Rightarrow> (case re_search cgpa_rx line of Some m \<Rightarrow> Inr (Str ''cgpa'')
                       | None \<Rightarrow> getitem s (scale_key T)))"
    by (simp add: edu_line_scale)
  fix mk
  assume "major_key T = Some mk"
  with a show "getitem s' mk =
                (case re_search major_rx line of Some m \<Rightarrow> Inr (Str (group m 1))
                 | None \<Rightarrow> getitem s mk)"
    by (simp add: edu_line_major)
qed

theorem first_line_wins_for_name_and_degree_only_witness:
  "field (edu_lines [''B.Tech (Robotics) 2021 9.1'']
            (setitem (setitem empty_resume_schema ''ugCollegeName'' (Str ''B.Tech (AI) 2020 8.5''))
               ''ugGraduationYear'' (Str ''2020''))) ''ugCollegeName''
     = Inr (Str ''B.Tech (AI) 2020 8.5'')
   \<and> field (edu_line ''B.Tech (Robotics) 2021 9.1''
            (setitem (setitem empty_resume_schema ''ugCollegeName'' (Str ''B.Tech (AI) 2020 8.5''))
               ''ugGraduationYear'' (Str ''2020''))) ''ugGraduationYear''
     = Inr (Str ''2021'')"
proof -
  let ?s = "setitem (setitem empty_resume_schema ''ugCollegeName'' (Str ''B.Tech (AI) 2020 8.5''))
               ''ugGraduationYear'' (Str ''2020'')"
  let ?l = "''B.Tech (Robotics) 2021 9.1''"
  have "\<not> isl (edu_lines [?l] ?s)" by code_simp
  then obtain X where X: "edu_lines [?l] ?s = Inr X"
    by (cases "edu_lines [?l] ?s") auto
  have "\<not> isl (edu_line ?l ?s)" by code_simp
  then obtain Y where Y: "edu_line ?l ?s = Inr Y"
    by (cases "edu_line ?l ?s") auto
  have k: "''ugCollegeName'' \<in> set guarded_keys" by (simp add: guarded_keys_def)
  have v: "getitem ?s ''ugCollegeName'' = Inr (Str ''B.Tech (AI) 2020 8.5'') \<and> truthy (Str ''B.Tech (AI) 2020 8.5'')"
    by code_simp
  have c: "classify ?l = Some Undergraduate" by code_simp
  have y: "re_search year_rx ?l = Some (''2021'', [(1, ''20'')])" by code_simp
  note t = first_line_wins_for_name_and_degree_only[of "[?l]" ?s ?l]
  from t X k v have 1: "getitem X ''ugCollegeName'' = Inr (Str ''B.Tech (AI) 2020 8.5'')"
    by blast
  from t Y c have "getitem Y (year_key Undergraduate) =
          (case re_search year_rx ?l of Some m \<Rightarrow> Inr (Str (group0 m))
           | None \<Rightarrow> getitem ?s (year_key Undergraduate))"
    by blast
  with y have 2: "getitem Y ''ugGraduationYear'' = Inr (Str ''2021'')"
    by (simp add: group0_def)
  from 1 2 X Y show ?thesis by (simp add: field_def)
qed

text \<open>
  The claim as stated fails: a second undergraduate line replaces the major, the year and
  the grade that the first one set.
\<close>

theorem later_line_overwrites_counterexample:
  "field (parse_education ''Education\<newline>B.Tech (AI) 2020 8.5'' empty_resume_schema) ''ugMajor'' = Inr (Str ''AI'')
   \<and> field (parse_education ''Education\<newline>B.Tech (AI) 2020 8.5'' empty_resume_schema) ''ugGraduationYear'' = Inr (Str ''2020'')
   \<and> field (parse_education ''Education\<newline>B.Tech (AI) 2020 8.5'' empty_resume_schema) ''ugCollegeGpaOrPercentage'' = Inr (Str ''8.5'')
   \<and> field (parse_education ''Education\<newline>B.Tech (AI) 2020 8.5\<newline>B.Tech (Robotics) 2021 9.1'' empty_resume_schema) ''ugMajor'' = Inr (Str ''Robotics'')
   \<and> field (parse_education ''Education\<newline>B.Tech (AI) 2020 8.5\<newline>B.Tech (Robotics) 2021 9.1'' empty_resume_schema) ''ugGraduationYear'' = Inr (Str ''2021'')
   \<and> field (parse_education ''Education\<newline>B.Tech (AI) 2020 8.5\<newline>B.Tech (Robotics) 2021 9.1'' empty_resume_schema) ''ugCollegeGpaOrPercentage'' = Inr (Str ''9.1'')"
  by code_simp

section \<open>Percentage before GPA\<close>

text \<open>
  Claim C5. For a line of tier \<open>T\<close>, the grade is the first match of the percentage pattern,
  with scale \<open>percentage\<close>; only when the percentage pattern has no match is it the first
  match of the GPA pattern, with scale \<open>cgpa\<close>; with neither, grade and scale stay as they
  were. A line of no tier changes nothing. The line \<open>B.Tech Computer Science (AI) 2021 8.5\<close>
  under an \<open>Education\<close> heading gives degree \<open>Bachelor\<close>, major \<open>AI\<close>, year \<open>2021\<close>, grade
  \<open>8.5\<close> and scale \<open>cgpa\<close>.
\<close>

theorem percentage_before_gpa:
  "(\<forall>s' T. edu_line line s = Inr s' \<and> classify line = Some T \<longrightarrow>
      (case re_search perc_rx line of
         Some m \<Rightarrow> getitem s' (gpa_key T) = Inr (Str (group0 m))
                   \<and> getitem s' (scale_key T) = Inr (Str ''percentage'')
       | None \<Rightarrow>
           (case re_search cgpa_rx line of
              Some m \<Rightarrow> getitem s' (gpa_key T) = Inr (Str (group0 m))
                        \<and> getitem s' (scale_key T) = Inr (Str ''cgpa'')
            | None \<Rightarrow> getitem s' (gpa_key T) = getitem s (gpa_key T)
                      \<and> getitem s' (scale_key T) = getitem s (scale_key T))))
   \<and> (classify line = None \<longrightarrow> edu_line line s = Inr s)
   \<and> field (parse_education ''Education\<newline>B.Tech Computer Science (AI) 2021 8.5'' empty_resume_schema) ''ugDegree''
       = Inr (Str ''Bachelor'')
   \<and> field (parse_education ''Education\<newline>B.Tech Computer Science (AI) 2021 8.5'' empty_resume_schema) ''ugMajor''
       = Inr (Str ''AI'')
   \<and> field (parse_education ''Education\<newline>B.Tech Computer Science (AI) 2021 8.5'' empty_resume_schema) ''ugGraduationYear''
       = Inr (Str ''2021'')
   \<and> field (parse_education ''Education\<newline>B.Tech Computer Science (AI) 2021 8.5'' empty_resume_schema) ''ugCollegeGpaOrPercentage''
       = Inr (Str ''8.5'')
   \<and> field (parse_education ''Education\<newline>B.Tech Computer Science (AI) 2021 8.5'' empty_resume_schema) ''ugCollegeGpaScale''
       = Inr (Str ''cgpa'')"
proof -
  have 1: "\<forall>s' T. edu_line line s = Inr s' \<and> classify line = Some T \<longrightarrow>
      (case re_search perc_rx line of
         Some m \<Rightarrow> getitem s' (gpa_key T) = Inr (Str (group0 m))
                   \<and> getitem s' (scale_key T) = Inr (Str ''percentage'')
       | None \<Rightarrow>
           (case re_search cgpa_rx line of
              Some m \<Rightarrow> getitem s' (gpa_key T) = Inr (Str (group0 m))
                        \<and> getitem s' (scale_key T) = Inr (Str ''cgpa'')
            | None \<Rightarrow> getitem s' (gpa_key T) = getitem s (gpa_key T)
                      \<and> getitem s' (scale_key T) = getitem s (scale_key T)))"
    by (auto simp: edu_line_gpa edu_line_scale split: option.splits)
  have 2: "classify line = None \<longrightarrow> edu_line line s = Inr s"
    by (simp add: edu_line_unclassified)
  have 3: "field (parse_education ''Education\<newline>B.Tech Computer Science (AI) 2021 8.5'' empty_resume_schema) ''ugDegree''
       = Inr (Str ''Bachelor'')" by code_simp
  have 4: "field (parse_education ''Education\<newline>B.Tech Computer Science (AI) 2021 8.5'' empty_resume_schema) ''ugMajor''
       = Inr (Str ''AI'')" by code_simp
  have 5: "field (parse_education ''Education\<newline>B.Tech Computer Science (AI) 2021 8.5'' empty_resume_schema) ''ugGraduationYear''
       = Inr (Str ''2021'')" by code_simp
  have 6: "field (parse_education ''Education\<newline>B.Tech Computer Science (AI) 2021 8.5'' empty_resume_schema) ''ugCollegeGpaOrPercentage''
       = Inr (Str ''8.5'')" by code_simp
  have 7: "field (parse_education ''Education\<newline>B.Tech Computer Science (AI) 2021 8.5'' empty_resume_schema) ''ugCollegeGpaScale''
       = Inr (Str ''cgpa'')" by code_simp
  from 1 2 3 4 5 6 7 show ?thesis by blast
qed

theorem percentage_before_gpa_witness:
  "field (edu_line ''B.Tech 8.5 CGPA (85 %)'' empty_resume_schema) ''ugCollegeGpaOrPercentage'' = Inr (Str ''85 %'')
   \<and> field (edu_line ''B.Tech 8.5 CGPA (85 %)'' empty_resume_schema) ''ugCollegeGpaScale'' = Inr (Str ''percentage'')
   \<and> edu_line ''Institute of Science'' empty_resume_schema = Inr empty_resume_schema"
proof -
  let ?l = "''B.Tech 8.5 CGPA (85 %)''"
  have "\<not> isl (edu_line ?l empty_resume_schema)" by code_simp
  then obtain Y where Y: "edu_line ?l empty_resume_schema = Inr Y"
    by (cases "edu_line ?l empty_resume_schema") auto
  have c: "classify ?l = Some Undergraduate" by code_simp
  have p: "re_search perc_rx ?l = Some (''85 %'', [])" by code_simp
  have g: "re_search cgpa_rx ?l = Some (''8.5'', [])" by code_simp
  have n: "classify ''Institute of Science'' = None" by code_simp
  from percentage_before_gpa[of ?l empty_resume_schema] Y c
  have "(case re_search perc_rx ?l of
         Some m \<Rightarrow> getitem Y (gpa_key Undergraduate) = Inr (Str (group0 m))
                   \<and> getitem Y (scale_key Undergraduate) = Inr (Str ''percentage'')
       | None \<Rightarrow>
           (case re_search cgpa_rx ?l of
              Some m \<Rightarrow> getitem Y (gpa_key Undergraduate) = Inr (Str (group0 m))
                        \<and> getitem Y (scale_key Undergraduate) = Inr (Str ''cgpa'')
            | None \<Rightarrow> getitem Y (gpa_key Undergraduate) = getitem empty_resume_schema (gpa_key Undergraduate)
                      \<and> getitem Y (scale_key Undergraduate) = getitem empty_resume_schema (scale_key Undergraduate)))"
    by blast
  with p have 1: "getitem Y ''ugCollegeGpaOrPercentage'' = Inr (Str ''85 %'')
      \<and> getitem Y ''ugCollegeGpaScale'' = Inr (Str ''percentage'')"
    by (simp add: group0_def)
  from percentage_before_gpa[of "''Institute of Science''" empty_resume_schema] n
  have 2: "edu_line ''Institute of Science'' empty_resume_schema = Inr empty_resume_schema"
    by blast
  from 1 2 Y show ?thesis by (simp add: field_def)
qed

section \<open>Schemas of the fixed shape\<close>

lemma conforms_list_all2:
  "conforms s b = list_all2 (\<lambda>x y. fst x = fst y \<and> same_kind (snd x) (snd y)) s b"
  unfolding conforms_def
proof (induction s arbitrary: b)
  case Nil
  then show ?case by auto
next
  case (Cons x s)
  then show ?case by (cases b) auto
qed

lemma same_kind_refl: "same_kind v v"
  by (cases v) auto

lemma conforms_refl: "conforms b b"
  by (simp add: conforms_list_all2 list_all2_same same_kind_refl)

lemma same_kind_trans: "same_kind a b \<Longrightarrow> same_kind b c \<Longrightarrow> same_kind a c"
  by (cases a; cases b; cases c) auto

lemma conforms_lookup:
  "conforms s b \<Longrightarrow> map_of b k = Some v0 \<Longrightarrow> \<exists>v. map_of s k = Some v \<and> same_kind v v0"
  unfolding conforms_list_all2
  by (induction s b rule: list_all2_induct) (auto split: if_splits)

lemma conforms_setitem:
  "conforms s b \<Longrightarrow> map_of b k = Some v0 \<Longrightarrow> same_kind v v0 \<Longrightarrow> conforms (setitem s k v) b"
  unfolding conforms_list_all2 setitem_def
  by (induction s b rule: list_all2_induct) (auto split: if_splits)


lemma same_kind_Str: "same_kind v (Str a) \<Longrightarrow> \<exists>x. v = Str x"
  by (cases v) auto

lemma same_kind_Dct: "same_kind v (Dct a) \<Longrightarrow> \<exists>d. v = Dct d \<and> map fst d = map fst a"
  by (cases v) auto

lemma conforms_getitem_Str:
  assumes "conforms s b" and "map_of b k = Some (Str a)"
  shows "\<exists>x. getitem s k = Inr (Str x)"
proof -
  from conforms_lookup[OF assms] obtain v where "map_of s k = Some v" "same_kind v (Str a)" by blast
  then show ?thesis using same_kind_Str by (auto simp: getitem_def)
qed

lemma conforms_set_Str:
  "conforms s b \<Longrightarrow> map_of b k = Some (Str a) \<Longrightarrow> conforms (setitem s k (Str x)) b"
  by (rule conforms_setitem) auto

lemma conforms_set_Lst:
  "conforms s b \<Longrightarrow> map_of b k = Some (Lst a) \<Longrightarrow> conforms (setitem s k (Lst x)) b"
  by (rule conforms_setitem) auto

lemma set_marks_conforms:
  assumes "conforms s b" and "map_of b gk = Some (Str a1)" and "map_of b sk = Some (Str a2)"
    and "map_of b yk = Some (Str a3)"
  shows "conforms (set_marks gk sk yk line s) b"
  using assms by (simp add: set_marks_def Let_def conforms_set_Str split: option.splits)

lemma set_major_conforms:
  assumes "conforms s b" and "map_of b mk = Some (Str a)"
  shows "conforms (set_major mk line s) b"
  using assms by (simp add: set_major_def conforms_set_Str split: option.splits)

lemma py_or_Str: "\<exists>y. py_or (Str x) (Str l) = Str y"
  by (simp add: py_or_def)

lemma base_Str:
  "map_of BASE_RESUME_SCHEMA ''name'' = Some (Str [])"
  "map_of BASE_RESUME_SCHEMA ''email'' = Some (Str [])"
  "map_of BASE_RESUME_SCHEMA ''phoneNumber'' = Some (Str [])"
  "map_of BASE_RESUME_SCHEMA ''highSchoolName'' = Some (Str [])"
  "map_of BASE_RESUME_SCHEMA ''highSchoolGpaOrPercentage'' = Some (Str [])"
  "map_of BASE_RESUME_SCHEMA ''highSchoolGpaScale'' = Some (Str [])"
  "map_of BASE_RESUME_SCHEMA ''highSchoolGraduationYear'' = Some (Str [])"
  "map_of BASE_RESUME_SCHEMA ''ugCollegeName'' = Some (Str [])"
  "map_of BASE_RESUME_SCHEMA ''ugCollegeGpaOrPercentage'' = Some (Str [])"
  "map_of BASE_RESUME_SCHEMA ''ugCollegeGpaScale'' = Some (Str [])"
  "map_of BASE_RESUME_SCHEMA ''ugGraduationYear'' = Some (Str [])"
  "map_of BASE_RESUME_SCHEMA ''ugDegree'' = Some (Str [])"
  "map_of BASE_RESUME_SCHEMA ''ugMajor'' = Some (Str [])"
  "map_of BASE_RESUME_SCHEMA ''pgCollegeName'' = Some (Str [])"
  "map_of BASE_RESUME_SCHEMA ''pgCollegeGpaOrPercentage'' = Some (Str [])"
  "map_of BASE_RESUME_SCHEMA ''pgCollegeGpaScale'' = Some (Str [])"
  "map_of BASE_RESUME_SCHEMA ''pgGraduationYear'' = Some (Str [])"
  "map_of BASE_RESUME_SCHEMA ''pgDegree'' = Some (Str [])"
  "map_of BASE_RESUME_SCHEMA ''pgMajor'' = Some (Str [])"
  by code_simp+

lemma base_Lst:
  "map_of BASE_RESUME_SCHEMA ''certifications'' = Some (Lst [])"
  "map_of BASE_RESUME_SCHEMA ''extraCurricularActivities'' = Some (Lst [])"
  "map_of BASE_RESUME_SCHEMA ''workExperience'' = Some (Lst [])"
  "map_of BASE_RESUME_SCHEMA ''researchPublications'' = Some (Lst [])"
  "map_of BASE_RESUME_SCHEMA ''achievements'' = Some (Lst [])"
  "map_of BASE_RESUME_SCHEMA ''skills'' = Some (Lst [])"
  by code_simp+

lemma base_Dct:
  "map_of BASE_RESUME_SCHEMA ''testScores'' =
     Some (Dct [(''sat'', []), (''act'', []), (''gre'', []), (''gmat'', []), (''toefl'', []), (''ielts'', [])])"
  by code_simp

lemma edu_line_conforms:
  assumes c: "conforms s BASE_RESUME_SCHEMA"
  shows "\<exists>s'. edu_line line s = Inr s' \<and> conforms s' BASE_RESUME_SCHEMA"
proof -
  obtain a where a: "getitem s ''highSchoolName'' = Inr (Str a)"
    using conforms_getitem_Str[OF c base_Str(4)] by blast
  obtain b where b: "getitem s ''ugCollegeName'' = Inr (Str b)"
    using conforms_getitem_Str[OF c base_Str(8)] by blast
  obtain d where d: "getitem s ''ugDegree'' = Inr (Str d)"
    using conforms_getitem_Str[OF c base_Str(12)] by blast
  obtain e where e: "getitem s ''pgCollegeName'' = Inr (Str e)"
    using conforms_getitem_Str[OF c base_Str(14)] by blast
  obtain f where f: "getitem s ''pgDegree'' = Inr (Str f)"
    using conforms_getitem_Str[OF c base_Str(18)] by blast
  obtain a' where a': "py_or (Str a) (Str line) = Str a'" using py_or_Str by blast
  obtain b' where b': "py_or (Str b) (Str line) = Str b'" using py_or_Str by blast
  obtain d' where d': "py_or (Str d) (Str ''Bachelor'') = Str d'" using py_or_Str by blast
  obtain e' where e': "py_or (Str e) (Str line) = Str e'" using py_or_Str by blast
  obtain f' where f': "py_or (Str f) (Str ''Master'') = Str f'" using py_or_Str by blast
  have hs: "conforms (set_marks ''highSchoolGpaOrPercentage'' ''highSchoolGpaScale''
                    ''highSchoolGraduationYear'' line (setitem s ''highSchoolName'' (Str a'))) BASE_RESUME_SCHEMA"
    by (intro set_marks_conforms conforms_set_Str c) (rule base_Str)+
  have ug: "conforms (set_marks ''ugCollegeGpaOrPercentage'' ''ugCollegeGpaScale'' ''ugGraduationYear'' line
                (set_major ''ugMajor'' line
                   (setitem (setitem s ''ugCollegeName'' (Str b')) ''ugDegree'' (Str d')))) BASE_RESUME_SCHEMA"
    by (intro set_marks_conforms set_major_conforms conforms_set_Str c) (rule base_Str)+
  have pg: "conforms (set_marks ''pgCollegeGpaOrPercentage'' ''pgCollegeGpaScale'' ''pgGraduationYear'' line
                (set_major ''pgMajor'' line
                   (setitem (setitem s ''pgCollegeName'' (Str e')) ''pgDegree'' (Str f')))) BASE_RESUME_SCHEMA"
    by (intro set_marks_conforms set_major_conforms conforms_set_Str c) (rule base_Str)+
  show ?thesis
    using hs ug pg c
    by (simp add: edu_line_def Let_def getitem_setitem a b d e f a' b' d' e' f')
qed

lemma edu_lines_conforms:
  "conforms s BASE_RESUME_SCHEMA \<Longrightarrow> \<exists>s'. edu_lines ls s = Inr s' \<and> conforms s' BASE_RESUME_SCHEMA"
proof (induction ls arbitrary: s)
  case Nil
  then show ?case by simp
next
  case (Cons l ls)
  from edu_line_conforms[OF Cons.prems] obtain mid where
    mid: "edu_line l s = Inr mid" "conforms mid BASE_RESUME_SCHEMA" by blast
  from Cons.IH[OF mid(2)] mid(1) show ?case by simp
qed

lemma parse_education_conforms:
  "conforms s BASE_RESUME_SCHEMA \<Longrightarrow>
     \<exists>s'. parse_education text s = Inr s' \<and> conforms s' BASE_RESUME_SCHEMA"
  by (simp add: parse_education_def Let_def edu_lines_conforms)

lemma getitem_key: "k \<in> set (map fst d) \<Longrightarrow> \<exists>v. getitem d k = Inr v"
proof -
  assume "k \<in> set (map fst d)"
  then have "map_of d k \<noteq> None" by (simp add: map_of_eq_None_iff)
  then show ?thesis by (auto simp: getitem_def)
qed

lemma set_score_conforms:
  assumes c: "conforms s BASE_RESUME_SCHEMA" and k: "k \<in> set score_names"
  shows "\<exists>s'. set_score lower k s = Inr s' \<and> conforms s' BASE_RESUME_SCHEMA"
proof -
  define base :: "string dict" where
    "base = [(''sat'', []), (''act'', []), (''gre'', []), (''gmat'', []), (''toefl'', []), (''ielts'', [])]"
  have b: "map_of BASE_RESUME_SCHEMA ''testScores'' = Some (Dct base)"
    unfolding base_def by (rule base_Dct)
  have names: "set score_names = set (map fst base)"
    unfolding base_def score_names_def by auto
  from conforms_lookup[OF c b] obtain v where
    v: "map_of s ''testScores'' = Some v" "same_kind v (Dct base)"
    by (elim exE conjE)
  from same_kind_Dct[OF v(2)] obtain d where vd: "v = Dct d" "map fst d = map fst base"
    by (elim exE conjE)
  from k names vd(2) have kd: "k \<in> set (map fst d)"
    by (simp only:)
  from getitem_key[OF kd] obtain old where old: "getitem d k = Inr old"
    by (elim exE)
  have g: "getitem s ''testScores'' = Inr (Dct d)"
    using v(1) vd(1) by (simp add: getitem_def)
  have keys: "\<And>v. map fst (setitem d k v) = map fst base"
    using kd by (simp only: keys_setitem if_True vd(2))
  have keep: "\<And>v. conforms (setitem s ''testScores'' (Dct (setitem d k v))) BASE_RESUME_SCHEMA"
  proof -
    fix v
    have "same_kind (Dct (setitem d k v)) (Dct base)"
      by (simp only: same_kind.simps keys)
    from conforms_setitem[OF c b this]
    show "conforms (setitem s ''testScores'' (Dct (setitem d k v))) BASE_RESUME_SCHEMA" .
  qed
  have gs: "get_score s k = Inr old"
    by (simp add: get_score_def g old)
  have ps: "\<And>v. put_score s k v = Inr (setitem s ''testScores'' (Dct (setitem d k v)))"
    by (simp add: put_score_def g)
  show ?thesis
  proof (cases "grab_score lower k = []")
    case True
    then have "set_score lower k s = Inr (setitem s ''testScores'' (Dct (setitem d k old)))"
      by (simp add: set_score_def Let_def gs ps)
    with keep show ?thesis by blast
  next
    case False
    then have "set_score lower k s = Inr (setitem s ''testScores'' (Dct (setitem d k (grab_score lower k))))"
      by (simp add: set_score_def Let_def ps)
    with keep show ?thesis by blast
  qed
qed

lemma set_scores_conforms:
  "conforms s BASE_RESUME_SCHEMA \<Longrightarrow> set ks \<subseteq> set score_names \<Longrightarrow>
     \<exists>s'. set_scores lower ks s = Inr s' \<and> conforms s' BASE_RESUME_SCHEMA"
proof (induction ks arbitrary: s)
  case Nil
  then show ?case by simp
next
  case (Cons k ks)
  from Cons.prems have "k \<in> set score_names" "set ks \<subseteq> set score_names" by auto
  from set_score_conforms[OF Cons.prems(1) this(1)] obtain mid where
    mid: "set_score lower k s = Inr mid" "conforms mid BASE_RESUME_SCHEMA" by blast
  from Cons.IH[OF mid(2) \<open>set ks \<subseteq> set score_names\<close>] mid(1) show ?case by simp
qed

lemma parse_test_scores_conforms:
  "conforms s BASE_RESUME_SCHEMA \<Longrightarrow>
     \<exists>s'. parse_test_scores text s = Inr s' \<and> conforms s' BASE_RESUME_SCHEMA"
  by (simp add: parse_test_scores_def set_scores_conforms)

section \<open>The pipeline returns every field\<close>

text \<open>
  Claim C1. For every text, \<open>build_structured_data\<close> returns a schema and raises nothing, and
  the schema conforms to \<open>BASE_RESUME_SCHEMA\<close>: it has the keys of the base schema, in the same
  order, each holding a string where the base holds the empty string, a list where it holds the
  empty list, and under \<open>testScores\<close> a dict with the six score keys. The function is total
  in the model, so the statement also says that it terminates.
\<close>

theorem build_structured_data_total:
  "\<exists>schema. build_structured_data text = Inr schema \<and> conforms schema BASE_RESUME_SCHEMA"
proof -
  let ?s = "setitem (setitem (setitem (setitem (setitem (setitem (setitem (setitem (setitem
      empty_resume_schema
      ''name'' (Str (extract_name text)))
      ''email'' (Str (extract_email text)))
      ''phoneNumber'' (Str (extract_phone text)))
      ''workExperience'' (Lst (section_to_list (find_section_block text
                        [''experience'', ''work experience'', ''professional experience'']))))
      ''certifications'' (Lst (section_to_list (find_section_block text [''certifications'', ''certification'']))))
      ''extraCurricularActivities'' (Lst (section_to_list (find_section_block text
                          [''extra curricular'', ''extracurricular'', ''activities'']))))
      ''achievements'' (Lst (section_to_list (find_section_block text [''achievements'', ''accomplishments'']))))
      ''researchPublications'' (Lst (section_to_list (find_section_block text
                         [''publications'', ''research'', ''research publications'']))))
      ''skills'' (Lst (extract_skills text))"
  have e: "conforms empty_resume_schema BASE_RESUME_SCHEMA"
    by (simp add: empty_resume_schema_def conforms_refl)
  have c: "conforms ?s BASE_RESUME_SCHEMA"
    by (intro conforms_set_Str conforms_set_Lst e) (rule base_Str base_Lst)+
  from parse_education_conforms[OF c] obtain s1 where
    s1: "parse_education text ?s = Inr s1" "conforms s1 BASE_RESUME_SCHEMA" by blast
  from parse_test_scores_conforms[OF s1(2)] obtain s2 where
    s2: "parse_test_scores text s1 = Inr s2" "conforms s2 BASE_RESUME_SCHEMA" by blast
  have "build_structured_data text = Inr s2"
    using s1(1) s2(1) by (simp add: build_structured_data_def Let_def)
  with s2(2) show ?thesis by blast
qed



theorem build_structured_data_total_witness:
  "field (build_structured_data ''John Smith\<newline>john@x.com\<newline>Education\<newline>B.Tech (AI) 2021 8.5\<newline>GRE: 320'') ''name''
     = Inr (Str ''John Smith'')
   \<and> (\<exists>schema. build_structured_data ''John Smith\<newline>john@x.com\<newline>Education\<newline>B.Tech (AI) 2021 8.5\<newline>GRE: 320'' = Inr schema
        \<and> conforms schema BASE_RESUME_SCHEMA)"
proof -
  have "field (build_structured_data ''John Smith\<newline>john@x.com\<newline>Education\<newline>B.Tech (AI) 2021 8.5\<newline>GRE: 320'') ''name''
     = Inr (Str ''John Smith'')"
    by code_simp
  with build_structured_data_total[of "''John Smith\<newline>john@x.com\<newline>Education\<newline>B.Tech (AI) 2021 8.5\<newline>GRE: 320''"]
  show ?thesis by (intro conjI)
qed

section \<open>The multi-section segmenter without headings\<close>

lemma scan_keywords_none:
  "\<not> list_ex (\<lambda>kw. re_fullmatch True (heading_rx kw) line) kws \<Longrightarrow>
     scan_keywords i line section kws d = d"
  by (induction kws arbitrary: d) auto

lemma scan_headers_none:
  "\<not> list_ex (\<lambda>(section, kws). list_ex (\<lambda>kw. re_fullmatch True (heading_rx kw) line) kws) hs \<Longrightarrow>
     scan_headers i line hs d = d"
  by (induction hs arbitrary: d) (auto simp: scan_keywords_none)

lemma scan_lines_none:
  "\<forall>raw_line \<in> set lines. \<not> is_heading raw_line \<Longrightarrow> scan_lines i lines d = d"
  by (induction lines arbitrary: i d) (auto simp: is_heading_def scan_headers_none)

text \<open>
  Claim C3. When no line of the text is a heading, \<open>find_sections\<close> returns the whole text,
  as it is, under \<open>summary\<close>, and the empty string under each other category of
  \<open>SECTION_HEADERS\<close>; all five keys are present.
\<close>

theorem no_heading_all_in_summary:
  assumes "\<forall>raw_line \<in> set (str_splitlines text). \<not> is_heading raw_line"
  shows "find_sections text =
           Inr [(''summary'', text), (''education'', []), (''experience'', []), (''projects'', []),
                (''skills'', [])]"
proof -
  have "scan_lines 0 (str_splitlines text) [] = []"
    using assms by (rule scan_lines_none)
  then show ?thesis
    by (simp add: find_sections_def Let_def SECTION_HEADERS_def setitem_def)
qed

theorem no_heading_all_in_summary_witness:
  "find_sections ''Jane Roe\<newline>Education and skills: none  '' =
           Inr [(''summary'', ''Jane Roe\<newline>Education and skills: none  ''), (''education'', []),
                (''experience'', []), (''projects'', []), (''skills'', [])]"
proof -
  have "\<forall>raw_line \<in> set (str_splitlines ''Jane Roe\<newline>Education and skills: none  ''). \<not> is_heading raw_line"
    by code_simp
  then show ?thesis by (rule no_heading_all_in_summary)
qed

section \<open>Where a block of the single-section segmenter ends\<close>

lemma find_end_takeWhile:
  "find_end j ls = j + length (takeWhile (\<lambda>line. \<not> probable_heading (str_strip line)) ls)"
  by (induction ls arbitrary: j) auto

lemma slice_to_find_end:
  "slice lines (Suc i) (find_end (Suc i) (drop (Suc i) lines)) =
     takeWhile (\<lambda>line. \<not> probable_heading (str_strip line)) (drop (Suc i) lines)"
proof -
  have "take (length (takeWhile P xs)) xs = takeWhile P xs" for P and xs :: "string list"
    by (induction xs) auto
  then show ?thesis
    by (simp add: slice_def find_end_takeWhile)
qed

lemma find_start_Some:
  "find_start kws j ls = Some i \<Longrightarrow>
     j \<le> i \<and> i - j < length ls
     \<and> list_ex (\<lambda>kw. re_fullmatch True (heading_rx kw) (str_strip (ls ! (i - j)))) kws
     \<and> (\<forall>n < i - j. \<not> list_ex (\<lambda>kw. re_fullmatch True (heading_rx kw) (str_strip (ls ! n))) kws)"
proof (induction ls arbitrary: j)
  case Nil
  then show ?case by simp
next
  case (Cons l ls)
  show ?case
  proof (cases "list_ex (\<lambda>kw. re_fullmatch True (heading_rx kw) (str_strip l)) kws")
    case True
    with Cons.prems show ?thesis by simp
  next
    case False
    with Cons.prems have r: "find_start kws (Suc j) ls = Some i" by simp
    from Cons.IH[OF r] have ih: "Suc j \<le> i" "i - Suc j < length ls"
      "list_ex (\<lambda>kw. re_fullmatch True (heading_rx kw) (str_strip (ls ! (i - Suc j)))) kws"
      "\<forall>n < i - Suc j. \<not> list_ex (\<lambda>kw. re_fullmatch True (heading_rx kw) (str_strip (ls ! n))) kws"
      by auto
    from ih(1) have e: "i - j = Suc (i - Suc j)" by simp
    have "\<forall>n < i - j. \<not> list_ex (\<lambda>kw. re_fullmatch True (heading_rx kw) (str_strip ((l # ls) ! n))) kws"
    proof (intro allI impI)
      fix n assume "n < i - j"
      then show "\<not> list_ex (\<lambda>kw. re_fullmatch True (heading_rx kw) (str_strip ((l # ls) ! n))) kws"
        using False ih(4) e by (cases n) auto
    qed
    with ih e show ?thesis by simp
  qed
qed

lemma find_start_None:
  "find_start kws j ls = None \<Longrightarrow>
     \<forall>l \<in> set ls. \<not> list_ex (\<lambda>kw. re_fullmatch True (heading_rx kw) (str_strip l)) kws"
  by (induction ls arbitrary: j) (auto split: if_splits)

text \<open>
  Claim C7, as amended. The block starts below the first line that, lowercased and trimmed,
  is one of the keywords with an optional colon, and is empty when there is no such line.
  It ends before the first later line that, trimmed, is all uppercase with at most five
  words or consists of letters and spaces followed by a colon and nothing else, and runs to
  the end of the text when there is none. Being a known heading does not end the block.
\<close>

theorem block_ends_at_probable_heading:
  "(case find_start kws 0 (map str_lower (str_splitlines text)) of
      None \<Rightarrow> find_section_block text kws = []
              \<and> (\<forall>line \<in> set (str_splitlines text).
                    \<not> list_ex (\<lambda>kw. re_fullmatch True (heading_rx kw) (str_strip (str_lower line))) kws)
    | Some i \<Rightarrow> find_section_block text kws = block_below (str_splitlines text) i
                \<and> i < length (str_splitlines text)
                \<and> list_ex (\<lambda>kw. re_fullmatch True (heading_rx kw)
                              (str_strip (str_lower (str_splitlines text ! i)))) kws
                \<and> (\<forall>n < i. \<not> list_ex (\<lambda>kw. re_fullmatch True (heading_rx kw)
                              (str_strip (str_lower (str_splitlines text ! n)))) kws))"
proof (cases "find_start kws 0 (map str_lower (str_splitlines text))")
  case None
  from find_start_None[OF None] show ?thesis
    using None by (simp add: find_section_block_def Let_def)
next
  case (Some i)
  note fs = find_start_Some[OF Some]
  from fs have i: "i < length (str_splitlines text)"
    by simp
  have b: "find_section_block text kws = block_below (str_splitlines text) i"
    using Some by (simp add: find_section_block_def Let_def block_below_def slice_to_find_end)
  from fs have h': "list_ex (\<lambda>kw. re_fullmatch True (heading_rx kw)
                              (str_strip (str_lower (str_splitlines text ! i)))) kws"
    by auto
  from fs have n': "\<forall>n < i. \<not> list_ex (\<lambda>kw. re_fullmatch True (heading_rx kw)
                              (str_strip (str_lower (str_splitlines text ! n)))) kws"
    by auto
  from Some b i h' n' show ?thesis by simp
qed

theorem block_ends_at_probable_heading_witness:
  "find_section_block ''Jane\<newline>Education\<newline>B.Tech\<newline>Experience\<newline>Acme\<newline>SKILLS\<newline>python'' edu_keywords
     = block_below (str_splitlines ''Jane\<newline>Education\<newline>B.Tech\<newline>Experience\<newline>Acme\<newline>SKILLS\<newline>python'') 1
   \<and> block_below (str_splitlines ''Jane\<newline>Education\<newline>B.Tech\<newline>Experience\<newline>Acme\<newline>SKILLS\<newline>python'') 1
     = ''B.Tech\<newline>Experience\<newline>Acme''
   \<and> find_section_block ''Jane\<newline>B.Tech'' edu_keywords = []"
proof -
  let ?t = "''Jane\<newline>Education\<newline>B.Tech\<newline>Experience\<newline>Acme\<newline>SKILLS\<newline>python''"
  have s: "find_start edu_keywords 0 (map str_lower (str_splitlines ?t)) = Some 1"
    by code_simp
  have n: "find_start edu_keywords 0 (map str_lower (str_splitlines ''Jane\<newline>B.Tech'')) = None"
    by code_simp
  have v: "block_below (str_splitlines ?t) 1 = ''B.Tech\<newline>Experience\<newline>Acme''"
    by code_simp
  from block_ends_at_probable_heading[of ?t edu_keywords] s
  have 1: "find_section_block ?t edu_keywords = block_below (str_splitlines ?t) 1"
    by simp
  from block_ends_at_probable_heading[of "''Jane\<newline>B.Tech''" edu_keywords] n
  have 2: "find_section_block ''Jane\<newline>B.Tech'' edu_keywords = []"
    by simp
  from 1 v 2 show ?thesis by (intro conjI)
qed

text \<open>
  The claim as stated fails: a later line that is a known heading, but neither uppercase nor
  followed by a colon, stays inside the block.
\<close>

theorem known_heading_does_not_end_block_counterexample:
  "find_section_block ''Education\<newline>foo\<newline>Experience\<newline>bar'' edu_keywords = ''foo\<newline>Experience\<newline>bar''
   \<and> re_fullmatch True (heading_rx ''experience'') (str_strip (str_lower ''Experience''))
   \<and> find_section_block ''Education\<newline>foo\<newline>Education\<newline>bar'' edu_keywords = ''foo\<newline>Education\<newline>bar''
   \<and> re_fullmatch True (heading_rx ''education'') (str_strip (str_lower ''Education''))"
  by code_simp

section \<open>The two name guessers\<close>

lemma search_single_class:
  "(search_from False (Cls q) p s = None) = (\<not> list_ex q s)"
  by (induction s arbitrary: p) (auto simp: match_here_def)

lemma guess_name_loop_find:
  "guess_name_loop ls = find name_line_ok (map str_strip ls)"
  by (induction ls) (auto simp: name_line_ok_def Let_def)

lemma name_loop_find:
  "name_loop ls = (case find strict_name_line_ok ls of None \<Rightarrow> [] | Some l \<Rightarrow> l)"
  by (induction ls) (auto simp: strict_name_line_ok_def Let_def re_search_def search_single_class)

text \<open>
  Claim C6, as amended. \<open>guess_name\<close> of app1.py looks at the first 8 lines, trimmed, and
  returns the first one that is not blank, holds no email, URL or phone match, has two to
  four words, and has a letter in every word. \<open>extract_name\<close> of nlp.py, the stricter
  variant, looks at the first 5 lines that are not blank, and returns the first one that
  holds no \<open>@\<close> and no digit and has two to four words; it does not ask for a letter in
  every word. On the lines \<open>John Smith\<close>, \<open>john@x.com\<close>, \<open>+1 415 555 0000\<close> both return
  \<open>John Smith\<close>.
\<close>

theorem name_guessers:
  "guess_name lines = find name_line_ok (map str_strip (take 8 lines))
   \<and> extract_name text =
       (case find strict_name_line_ok
               (take 5 (filter (\<lambda>l. l \<noteq> []) (map str_strip (str_splitlines text)))) of
          None \<Rightarrow> [] | Some l \<Rightarrow> l)
   \<and> guess_name [''John Smith'', ''john@x.com'', ''+1 415 555 0000''] = Some ''John Smith''
   \<and> extract_name ''John Smith\<newline>john@x.com\<newline>+1 415 555 0000'' = ''John Smith''"
proof -
  have 1: "guess_name lines = find name_line_ok (map str_strip (take 8 lines))"
    by (simp add: guess_name_def guess_name_loop_find)
  have 2: "extract_name text =
       (case find strict_name_line_ok
               (take 5 (filter (\<lambda>l. l \<noteq> []) (map str_strip (str_splitlines text)))) of
          None \<Rightarrow> [] | Some l \<Rightarrow> l)"
    by (simp add: extract_name_def Let_def name_loop_find)
  have 3: "guess_name [''John Smith'', ''john@x.com'', ''+1 415 555 0000''] = Some ''John Smith''"
    by code_simp
  have 4: "extract_name ''John Smith\<newline>john@x.com\<newline>+1 415 555 0000'' = ''John Smith''"
    by code_simp
  from 1 2 3 4 show ?thesis by (intro conjI)
qed

theorem name_guessers_witness:
  "guess_name [''Curriculum Vitae 2024'', ''jane@x.org'', ''www.jane.org'', ''- -'', ''Jane Q. Roe''] = Some ''Jane Q. Roe''
   \<and> extract_name ''R2 D2\<newline>jane@x.org\<newline>- -\<newline>Jane Q. Roe'' = ''- -''"
proof -
  have 1: "find name_line_ok (map str_strip (take 8
             [''Curriculum Vitae 2024'', ''jane@x.org'', ''www.jane.org'', ''- -'', ''Jane Q. Roe'']))
           = Some ''Jane Q. Roe''"
    by code_simp
  have 2: "(case find strict_name_line_ok
               (take 5 (filter (\<lambda>l. l \<noteq> []) (map str_strip (str_splitlines ''R2 D2\<newline>jane@x.org\<newline>- -\<newline>Jane Q. Roe'')))) of
          None \<Rightarrow> [] | Some l \<Rightarrow> l) = ''- -''"
    by code_simp
  from name_guessers[of "[''Curriculum Vitae 2024'', ''jane@x.org'', ''www.jane.org'', ''- -'', ''Jane Q. Roe'']"
         "''R2 D2\<newline>jane@x.org\<newline>- -\<newline>Jane Q. Roe''"] 1 2
  show ?thesis by (simp only:)
qed

text \<open>
  The claim as stated fails for the stricter variant: it returns a line of two words
  without any letter, before the line that has them.
\<close>

theorem strict_name_guesser_counterexample:
  "extract_name ''--- ---\<newline>John Smith'' = ''--- ---''
   \<and> \<not> list_all (\<lambda>w. list_ex is_alpha w) (str_split ''--- ---'')
   \<and> list_all (\<lambda>w. list_ex is_alpha w) (str_split ''John Smith'')"
  by code_simp

section \<open>The two phone extractors\<close>

lemma phone_loop_find:
  "phone_loop ms = map_option (\<lambda>m. str_strip (candidate m)) (find accepted ms)"
  by (induction ms) (auto simp: accepted_def candidate_def digit_count_def Let_def)

lemma filter_dropWhile_disjoint:
  "(\<And>x. Q x \<Longrightarrow> \<not> P x) \<Longrightarrow> filter P (dropWhile Q xs) = filter P xs"
  by (induction xs) auto

lemma digit_not_space: "is_space c \<Longrightarrow> \<not> is_digit c"
  by (auto simp: is_space_def is_digit_def Let_def)

lemma digit_count_strip: "digit_count (str_strip s) = digit_count s"
proof -
  have "filter is_digit (rev (dropWhile is_space (rev (dropWhile is_space s)))) = filter is_digit s"
    using filter_dropWhile_disjoint[of is_space is_digit] digit_not_space
    by (simp add: rev_filter[symmetric])
  then show ?thesis by (simp add: digit_count_def str_strip_def strip_chars_def)
qed

lemma rep_sound:
  "(p', s', g') \<in> set (rep q lo hi (p, s, g)) \<Longrightarrow>
     \<exists>w. s = w @ s' \<and> lo \<le> length w \<and> list_all q w"
proof (induction s arbitrary: lo hi p)
  case Nil
  then show ?case by (auto split: if_splits)
next
  case (Cons c cs)
  from Cons.prems consider
    (more) "q c" "(p', s', g') \<in> set (rep q (lo - 1) (map_option (\<lambda>h. h - 1) hi) (Some c, cs, g))"
    | (stop) "lo = 0" "s' = c # cs"
    by (auto split: if_splits)
  then show ?case
  proof cases
    case more
    from Cons.IH[OF more(2)] obtain w where "cs = w @ s'" "lo - 1 \<le> length w" "list_all q w"
      by blast
    with more(1) have "c # cs = (c # w) @ s' \<and> lo \<le> length (c # w) \<and> list_all q (c # w)"
      by auto
    then show ?thesis by blast
  next
    case stop
    then have "c # cs = [] @ s' \<and> lo \<le> length ([] :: string) \<and> list_all q []" by simp
    then show ?thesis by blast
  qed
qed

lemma cls_sound:
  "(p', s', g') \<in> set (rmatch ic (Cls q) (p, s, g)) \<Longrightarrow> \<exists>c. s = c # s' \<and> q c"
  by (cases s) (auto split: if_splits)

lemma nlp_phone_sound:
  assumes "(p', s', g') \<in> set (rmatch False nlp_phone_rx (p, s, g))"
  shows "\<exists>w1 c w2 d. s = w1 @ c # w2 @ d # s'
           \<and> list_all (\<lambda>x. x = CHR ''+'') w1 \<and> is_digit c
           \<and> list_all (\<lambda>x. is_digit x \<or> is_space x \<or> x = CHR ''-'') w2 \<and> 8 \<le> length w2
           \<and> is_digit d"
proof -
  from assms obtain p1 s1 g1 p2 s2 g2 p3 s3 g3 where
    a: "(p1, s1, g1) \<in> set (rep (\<lambda>c. c = CHR ''+'') 0 (Some 1) (p, s, g))"
    and b: "(p2, s2, g2) \<in> set (rmatch False (Cls is_digit) (p1, s1, g1))"
    and c: "(p3, s3, g3) \<in> set (rep (\<lambda>c. is_digit c \<or> is_space c \<or> c = CHR ''-'') 8 None (p2, s2, g2))"
    and d: "(p', s', g') \<in> set (rmatch False (Cls is_digit) (p3, s3, g3))"
    unfolding nlp_phone_rx_def by (simp del: rmatch.simps(2)) fast
  from rep_sound[OF a] obtain w1 where w1: "s = w1 @ s1" "list_all (\<lambda>x. x = CHR ''+'') w1" by blast
  from cls_sound[OF b] obtain x where x: "s1 = x # s2" "is_digit x" by blast
  from rep_sound[OF c] obtain w2 where
    w2: "s2 = w2 @ s3" "8 \<le> length w2" "list_all (\<lambda>x. is_digit x \<or> is_space x \<or> x = CHR ''-'') w2"
    by blast
  from cls_sound[OF d] obtain y where y: "s3 = y # s'" "is_digit y" by blast
  from w1 x w2 y have "s = w1 @ x # w2 @ y # s'
           \<and> list_all (\<lambda>x. x = CHR ''+'') w1 \<and> is_digit x
           \<and> list_all (\<lambda>x. is_digit x \<or> is_space x \<or> x = CHR ''-'') w2 \<and> 8 \<le> length w2
           \<and> is_digit y"
    by simp
  then show ?thesis by blast
qed

lemma search_from_Some:
  "search_from ic r p s = Some m \<Longrightarrow> \<exists>q t. match_here ic r q t = Some m"
  by (induction s arbitrary: p) (auto split: option.splits)

lemma match_here_Some:
  "match_here ic r p s = Some (t, g') \<Longrightarrow>
     \<exists>p' s'. (p', s', g') \<in> set (rmatch ic r (p, s, [])) \<and> t = take (length s - length s') s"
  by (auto simp: match_here_def split: list.splits)

lemma strip_unchanged:
  assumes "s \<noteq> []" and "\<not> is_space (hd s)" and "\<not> is_space (last s)"
  shows "str_strip s = s"
proof -
  from assms(1,2) have 1: "dropWhile is_space s = s" by (cases s) auto
  from assms(1,3) have 2: "dropWhile is_space (rev s) = rev s"
    by (cases "rev s") (auto simp: last_rev[symmetric] simp del: last_rev)
  show ?thesis by (simp add: str_strip_def strip_chars_def 1 2)
qed

lemma space_not_digit: "is_digit c \<Longrightarrow> \<not> is_space c"
  by (auto simp: is_space_def is_digit_def Let_def)

lemma plus_not_space: "\<not> is_space CHR ''+''"
  by (simp add: is_space_def code_def)

lemma nlp_phone_shape:
  assumes "extract_phone text \<noteq> []"
  shows "10 \<le> length (extract_phone text) \<and> 2 \<le> digit_count (extract_phone text)
         \<and> is_digit (last (extract_phone text))
         \<and> list_all (\<lambda>x. is_digit x \<or> is_space x \<or> x = CHR ''-'' \<or> x = CHR ''+'') (extract_phone text)"
proof -
  from assms obtain m where m: "re_search nlp_phone_rx text = Some m"
    "extract_phone text = str_strip (group0 m)"
    by (auto simp: extract_phone_def split: option.splits)
  obtain t g' where tg: "m = (t, g')" by (cases m)
  from m(1) search_from_Some obtain q u where "match_here False nlp_phone_rx q u = Some m"
    unfolding re_search_def by blast
  with tg match_here_Some obtain p' s' where
    ps: "(p', s', g') \<in> set (rmatch False nlp_phone_rx (q, u, []))" "t = take (length u - length s') u"
    by blast
  from nlp_phone_sound[OF ps(1)] obtain w1 c w2 d where
    sh: "u = w1 @ c # w2 @ d # s'" "list_all (\<lambda>x. x = CHR ''+'') w1" "is_digit c"
      "list_all (\<lambda>x. is_digit x \<or> is_space x \<or> x = CHR ''-'') w2" "8 \<le> length w2" "is_digit d"
    by blast
  from ps(2) sh(1) have t: "t = w1 @ c # w2 @ [d]" by simp
  have hd_ok: "\<not> is_space (hd t)"
    using t sh(2,3) by (cases w1) (auto simp: space_not_digit plus_not_space)
  have last_ok: "\<not> is_space (last t)"
    using t sh(6) by (simp add: space_not_digit)
  have "str_strip t = t"
    using t hd_ok last_ok by (intro strip_unchanged) auto
  with m(2) tg have e: "extract_phone text = w1 @ c # w2 @ [d]"
    by (simp add: group0_def t)
  have all1: "list_all (\<lambda>x. is_digit x \<or> is_space x \<or> x = CHR ''-'' \<or> x = CHR ''+'') w1"
    using sh(2) by (auto simp: list_all_iff)
  have all2: "list_all (\<lambda>x. is_digit x \<or> is_space x \<or> x = CHR ''-'' \<or> x = CHR ''+'') w2"
    using sh(4) by (auto simp: list_all_iff)
  show ?thesis
    using e sh(3,5,6) all1 all2 by (simp add: digit_count_def)
qed

text \<open>
  Claim C4, as amended. \<open>extract_phone\<close> of app1.py returns the first candidate of
  \<open>re.findall\<close> whose digits number between 10 and 13, in its original form, trimmed, and
  nothing when there is none; so every phone it returns has 10 to 13 digits.
  \<open>extract_phone\<close> of nlp.py counts no digits: what it returns, when not empty, is a run of
  at least 10 characters, each a digit, whitespace, a hyphen or a plus sign, that ends with
  a digit and holds at least 2 digits. On \<open>Phone: +1 415-555-2671\<close> both return
  \<open>+1 415-555-2671\<close>, with 11 digits, and on \<open>Room 12-34\<close> both return the empty result.
\<close>

theorem phone_extraction:
  "app1_extract_phone text =
     map_option (\<lambda>m. str_strip (candidate m)) (find accepted (re_findall PHONE_REGEX text))
   \<and> (\<forall>c. app1_extract_phone text = Some c \<longrightarrow> 10 \<le> digit_count c \<and> digit_count c \<le> 13)
   \<and> (extract_phone text \<noteq> [] \<longrightarrow>
        10 \<le> length (extract_phone text) \<and> 2 \<le> digit_count (extract_phone text)
        \<and> is_digit (last (extract_phone text))
        \<and> list_all (\<lambda>x. is_digit x \<or> is_space x \<or> x = CHR ''-'' \<or> x = CHR ''+'') (extract_phone text))
   \<and> app1_extract_phone ''Phone: +1 415-555-2671'' = Some ''+1 415-555-2671''
   \<and> extract_phone ''Phone: +1 415-555-2671'' = ''+1 415-555-2671''
   \<and> digit_count ''+1 415-555-2671'' = 11
   \<and> app1_extract_phone ''Room 12-34'' = None
   \<and> extract_phone ''Room 12-34'' = []"
proof -
  have 1: "app1_extract_phone text =
     map_option (\<lambda>m. str_strip (candidate m)) (find accepted (re_findall PHONE_REGEX text))"
    by (cases "re_findall PHONE_REGEX text") (simp_all add: app1_extract_phone_def Let_def phone_loop_find)
  have 2: "\<forall>c. app1_extract_phone text = Some c \<longrightarrow> 10 \<le> digit_count c \<and> digit_count c \<le> 13"
  proof (intro allI impI)
    fix c assume "app1_extract_phone text = Some c"
    with 1 have "map_option (\<lambda>m. str_strip (candidate m)) (find accepted (re_findall PHONE_REGEX text)) = Some c"
      by simp
    then obtain m where m: "find accepted (re_findall PHONE_REGEX text) = Some m"
      "c = str_strip (candidate m)"
      by (cases "find accepted (re_findall PHONE_REGEX text)") auto
    from m(1) have "accepted m" by (auto simp: find_Some_iff)
    with m(2) show "10 \<le> digit_count c \<and> digit_count c \<le> 13"
      by (simp add: accepted_def digit_count_strip)
  qed
  have 3: "app1_extract_phone ''Phone: +1 415-555-2671'' = Some ''+1 415-555-2671''" by code_simp
  have 4: "extract_phone ''Phone: +1 415-555-2671'' = ''+1 415-555-2671''" by code_simp
  have 5: "digit_count ''+1 415-555-2671'' = 11" by code_simp
  have 6: "app1_extract_phone ''Room 12-34'' = None" by code_simp
  have 7: "extract_phone ''Room 12-34'' = []" by code_simp
  have 8: "extract_phone text \<noteq> [] \<longrightarrow>
        10 \<le> length (extract_phone text) \<and> 2 \<le> digit_count (extract_phone text)
        \<and> is_digit (last (extract_phone text))
        \<and> list_all (\<lambda>x. is_digit x \<or> is_space x \<or> x = CHR ''-'' \<or> x = CHR ''+'') (extract_phone text)"
    using nlp_phone_shape by blast
  from 1 2 8 3 4 5 6 7 show ?thesis by (intro conjI)
qed

theorem phone_extraction_witness:
  "app1_extract_phone ''id 123456789 or 1234567890123456 then 415-555-2671x'' = Some ''415-555-2671''
   \<and> 10 \<le> digit_count ''415-555-2671'' \<and> digit_count ''415-555-2671'' \<le> 13
   \<and> extract_phone ''id 123456789 or 1234567890123456 then 415-555-2671x'' = ''1234567890123456''
   \<and> 10 \<le> length ''1234567890123456''"
proof -
  let ?t = "''id 123456789 or 1234567890123456 then 415-555-2671x''"
  have e: "app1_extract_phone ?t = Some ''415-555-2671''"
    by code_simp
  have f: "extract_phone ?t = ''1234567890123456''"
    by code_simp
  from phone_extraction[of ?t] e
  have 1: "10 \<le> digit_count ''415-555-2671''"
    by blast
  from phone_extraction[of ?t] e
  have 2: "digit_count ''415-555-2671'' \<le> 13"
    by blast
  from phone_extraction[of ?t] f
  have 3: "10 \<le> length ''1234567890123456''"
    by (simp del: length_Cons list.size)
  from e 1 2 f 3 show ?thesis by (intro conjI)
qed

text \<open>
  The claim as stated fails for \<open>extract_phone\<close> of nlp.py, which accepts a run with 16
  digits and a run with 2 digits.
\<close>

theorem phone_digit_count_counterexample:
  "extract_phone ''Card 1234 5678 9012 3456'' = ''1234 5678 9012 3456''
   \<and> digit_count ''1234 5678 9012 3456'' = 16
   \<and> extract_phone ''Rooms 1 - - - - 2'' = ''1 - - - - 2''
   \<and> digit_count ''1 - - - - 2'' = 2"
  by code_simp

end
